theory Spec2Isabelle
  imports Main
begin

section \<open>Python values, exceptions and list access\<close>

text \<open>
  A reference to a Python object. Tensors are compared by identity in the parameter
  registry (\<^verbatim>\<open>id(allparams[i])\<close>), never by value, so a tensor is represented by the
  number that identifies the object; \<open>PyNone\<close> is the singleton \<^verbatim>\<open>None\<close>.
\<close>

datatype pyref = PyNone | Tensor nat

text \<open>\<^verbatim>\<open>id(x)\<close>: distinct live objects have distinct ids.\<close>

fun py_id :: "pyref \<Rightarrow> nat" where
  "py_id PyNone = 0"
| "py_id (Tensor k) = Suc k"

text \<open>
  Instances of Python's \<^verbatim>\<open>Exception\<close>. \<open>UserError\<close> stands for any exception class of the
  caller's own code.
\<close>

datatype exc =
    IndexError
  | KeyError string
  | AttributeError string
  | UnboundLocalError string
  | RuntimeError string
  | TypeError
  | UserError string

text \<open>
  Exceptions that derive from \<^verbatim>\<open>BaseException\<close> only; a handler \<^verbatim>\<open>except Exception\<close>
  does not catch them.
\<close>

datatype signal = KeyboardInterrupt | SystemExit

text \<open>How a block of statements, or a \<^verbatim>\<open>with\<close> statement, ends.\<close>

datatype completion = Completed | Raised exc | Aborted signal

text \<open>\<^verbatim>\<open>xs.index(x)\<close>: the first position of \<open>x\<close>; \<open>None\<close> stands for \<^verbatim>\<open>ValueError\<close>.\<close>

fun list_index :: "'a list \<Rightarrow> 'a \<Rightarrow> nat option" where
  "list_index [] x = None"
| "list_index (y # ys) x = (if y = x then Some 0 else map_option Suc (list_index ys x))"

text \<open>\<^verbatim>\<open>xs[i]\<close> for a non-negative \<open>i\<close>.\<close>

definition py_get :: "'a list \<Rightarrow> nat \<Rightarrow> exc + 'a" where
  "py_get xs i = (if i < length xs then Inr (xs ! i) else Inl IndexError)"

text \<open>\<^verbatim>\<open>xs[i] = v\<close> for a non-negative \<open>i\<close>.\<close>

definition py_set :: "'a list \<Rightarrow> nat \<Rightarrow> 'a \<Rightarrow> exc + 'a list" where
  "py_set xs i v = (if i < length xs then Inr (xs[i := v]) else Inl IndexError)"

section \<open>The editable-module protocol (lintorch/core/editable_module.py)\<close>

text \<open>
  An object of a subclass of \<^verbatim>\<open>EditableModule\<close>: its attributes that hold tensors, and
  the three private dictionaries that \<^verbatim>\<open>_get_unique_params_idxs\<close> creates on its first
  call (\<open>None\<close>: the attribute does not exist yet).
\<close>

record editable =
  attrs :: "string \<Rightarrow> pyref"
  unique_params_idxs :: "(string \<rightharpoonup> nat list) option"
  unique_params_maps :: "(string \<rightharpoonup> nat list list) option"
  number_of_params :: "(string \<rightharpoonup> nat) option"

text \<open>
  Modelled from the spec: \<^verbatim>\<open>getparams\<close> and \<^verbatim>\<open>setparams\<close> are abstract in the source and
  no subclass is part of it. Following the protocol (``tensors actually consumed when that
  operation executes''; ``writes tensors back into the object's internal state in the same
  order getParams would enumerate them'', returning the count consumed), a class is given
  by the attributes each method reads, in order: \<open>L m\<close> is that list for method \<open>m\<close>.
  An attribute may occur twice, and two attributes may hold the identical tensor.
\<close>

type_synonym layout = "string \<Rightarrow> string list"

definition getparams :: "layout \<Rightarrow> editable \<Rightarrow> string \<Rightarrow> pyref list" where
  "getparams L s m = map (attrs s) (L m)"

definition assign :: "string \<times> pyref \<Rightarrow> (string \<Rightarrow> pyref) \<Rightarrow> (string \<Rightarrow> pyref)" where
  "assign ap f = f(fst ap := snd ap)"

definition setparams :: "layout \<Rightarrow> editable \<Rightarrow> string \<Rightarrow> pyref list \<Rightarrow> exc + (nat \<times> editable)" where
  "setparams L s m ps =
     (if length ps < length (L m) then Inl IndexError
      else Inr (length (L m), s\<lparr>attrs := fold assign (zip (L m) ps) (attrs s)\<rparr>))"

text \<open>
  The body of the loop of \<^verbatim>\<open>_get_unique_params_idxs\<close> over the positions \<open>i\<close>: the state
  is \<open>(ids, idxs, idx_map)\<close>.
\<close>

fun unique_step :: "pyref list \<Rightarrow> nat list \<times> nat list \<times> nat list list \<Rightarrow> nat
    \<Rightarrow> nat list \<times> nat list \<times> nat list list" where
  "unique_step allparams (ids, idxs, idx_map) i =
     (let id_param = py_id (allparams ! i) in
      case list_index ids id_param of
        Some jfound \<Rightarrow> (ids, idxs, idx_map[jfound := idx_map ! jfound @ [i]])
      | None \<Rightarrow> (ids @ [id_param], idxs @ [i], idx_map @ [[i]]))"

definition unique_loop :: "pyref list \<Rightarrow> nat list \<times> nat list \<times> nat list list" where
  "unique_loop allparams = foldl (unique_step allparams) ([], [], []) [0..<length allparams]"

text \<open>
  \<^verbatim>\<open>_get_unique_params_idxs(methodname, allparams)\<close>, called with the parameter list as
  \<^verbatim>\<open>getuniqueparams\<close> does. Only \<^verbatim>\<open>_unique_params_idxs\<close> is tested with \<^verbatim>\<open>hasattr\<close>; the
  stores into the other two dictionaries raise when they are missing.
\<close>

definition get_unique_params_idxs ::
    "editable \<Rightarrow> string \<Rightarrow> pyref list \<Rightarrow> exc + (nat list \<times> editable)" where
  "get_unique_params_idxs s m allparams =
     (let s1 = (if unique_params_idxs s = None
                then s\<lparr>unique_params_idxs := Some Map.empty,
                       unique_params_maps := Some Map.empty,
                       number_of_params := Some Map.empty\<rparr>
                else s)
      in case unique_params_idxs s1 of
           None \<Rightarrow> Inl (AttributeError ''_unique_params_idxs'')
         | Some I \<Rightarrow>
            (case I m of
               Some idxs \<Rightarrow> Inr (idxs, s1)
             | None \<Rightarrow>
                (case unique_loop allparams of (ids, idxs, idx_map) \<Rightarrow>
                  (case number_of_params s1 of
                     None \<Rightarrow> Inl (AttributeError ''_number_of_params'')
                   | Some N \<Rightarrow>
                      (case unique_params_maps s1 of
                         None \<Rightarrow> Inl (AttributeError ''_unique_params_maps'')
                       | Some M \<Rightarrow>
                           Inr (idxs, s1\<lparr>number_of_params := Some (N(m \<mapsto> length allparams)),
                                        unique_params_idxs := Some (I(m \<mapsto> idxs)),
                                        unique_params_maps := Some (M(m \<mapsto> idx_map))\<rparr>))))))"

text \<open>\<^verbatim>\<open>[allparams[i] for i in idxs]\<close>.\<close>

fun pick :: "'a list \<Rightarrow> nat list \<Rightarrow> exc + 'a list" where
  "pick xs [] = Inr []"
| "pick xs (i # is) =
     (case py_get xs i of
        Inl e \<Rightarrow> Inl e
      | Inr x \<Rightarrow> (case pick xs is of Inl e \<Rightarrow> Inl e | Inr ys \<Rightarrow> Inr (x # ys)))"

definition getuniqueparams :: "layout \<Rightarrow> editable \<Rightarrow> string \<Rightarrow> exc + (pyref list \<times> editable)" where
  "getuniqueparams L s m =
     (let allparams = getparams L s m in
      case get_unique_params_idxs s m allparams of
        Inl e \<Rightarrow> Inl e
      | Inr (idxs, s1) \<Rightarrow>
          (case pick allparams idxs of Inl e \<Rightarrow> Inl e | Inr us \<Rightarrow> Inr (us, s1)))"

text \<open>The inner loop of \<^verbatim>\<open>setuniqueparams\<close>: \<^verbatim>\<open>for i in jmap: allparams[i] = p\<close>.\<close>

fun fill_group :: "pyref list \<Rightarrow> nat list \<Rightarrow> pyref \<Rightarrow> exc + pyref list" where
  "fill_group allparams [] p = Inr allparams"
| "fill_group allparams (i # jmap) p =
     (case py_set allparams i p of
        Inl e \<Rightarrow> Inl e
      | Inr allparams' \<Rightarrow> fill_group allparams' jmap p)"

text \<open>
  The outer loop, \<^verbatim>\<open>for j in range(len(uniqueparams))\<close>, from position \<open>j\<close> on; the second
  argument is what is left of \<^verbatim>\<open>uniqueparams\<close>.
\<close>

fun fill_from :: "nat list list \<Rightarrow> pyref list \<Rightarrow> nat \<Rightarrow> pyref list \<Rightarrow> exc + pyref list" where
  "fill_from maps [] j allparams = Inr allparams"
| "fill_from maps (p # us) j allparams =
     (case py_get maps j of
        Inl e \<Rightarrow> Inl e
      | Inr jmap \<Rightarrow>
          (case fill_group allparams jmap p of
             Inl e \<Rightarrow> Inl e
           | Inr allparams' \<Rightarrow> fill_from maps us (Suc j) allparams'))"

text \<open>
  The list \<^verbatim>\<open>allparams\<close> that \<^verbatim>\<open>setuniqueparams\<close> has built when it calls
  \<^verbatim>\<open>setparams\<close>.
\<close>

definition expand_unique :: "editable \<Rightarrow> string \<Rightarrow> pyref list \<Rightarrow> exc + pyref list" where
  "expand_unique s m uniqueparams =
     (case number_of_params s of
        None \<Rightarrow> Inl (AttributeError ''_number_of_params'')
      | Some N \<Rightarrow>
         (case N m of
            None \<Rightarrow> Inl (KeyError m)
          | Some nparams \<Rightarrow>
             (case unique_params_maps s of
                None \<Rightarrow> Inl (AttributeError ''_unique_params_maps'')
              | Some M \<Rightarrow>
                 (case M m of
                    None \<Rightarrow> Inl (KeyError m)
                  | Some maps \<Rightarrow> fill_from maps uniqueparams 0 (replicate nparams PyNone)))))"

definition setuniqueparams ::
    "layout \<Rightarrow> editable \<Rightarrow> string \<Rightarrow> pyref list \<Rightarrow> exc + (nat \<times> editable)" where
  "setuniqueparams L s m uniqueparams =
     (case expand_unique s m uniqueparams of
        Inl e \<Rightarrow> Inl e
      | Inr allparams \<Rightarrow> setparams L s m allparams)"

text \<open>
  The block run under \<^verbatim>\<open>with obj.useparams(...)\<close>: it may rebind the attributes of the
  object and ends normally, with an exception or with a signal; what it has written
  before raising stays written. The private dictionaries are written by
  \<^verbatim>\<open>_get_unique_params_idxs\<close> only.
\<close>

type_synonym block = "(string \<Rightarrow> pyref) \<Rightarrow> (string \<Rightarrow> pyref) \<times> completion"

text \<open>
  The \<^verbatim>\<open>finally\<close> clause of \<^verbatim>\<open>useparams\<close>, entered with the completion \<open>c\<close> that is
  pending: an exception raised by the clause replaces it.
\<close>

definition restore ::
    "layout \<Rightarrow> editable \<Rightarrow> string \<Rightarrow> pyref list \<Rightarrow> completion \<Rightarrow> editable \<times> completion" where
  "restore L s m orig c =
     (case setuniqueparams L s m orig of
        Inl e \<Rightarrow> (s, Raised e)
      | Inr (n, s') \<Rightarrow> (s', c))"

text \<open>
  \<^verbatim>\<open>with obj.useparams(methodname, *params): block\<close>, with the generator driven as
  \<^verbatim>\<open>contextlib.contextmanager\<close> drives it. The result is the object afterwards, the
  exceptions printed by \<^verbatim>\<open>tb.print_exc()\<close>, and how the \<^verbatim>\<open>with\<close> statement ends.
  \<^item> \<^verbatim>\<open>getuniqueparams\<close> raises: the handler prints it, and the \<^verbatim>\<open>finally\<close> clause reads
    the unbound \<^verbatim>\<open>_orig_params_\<close>.
  \<^item> \<^verbatim>\<open>setuniqueparams\<close> raises: the handler prints it, the \<^verbatim>\<open>finally\<close> clause restores,
    and the generator ends without a \<^verbatim>\<open>yield\<close>, which \<^verbatim>\<open>__enter__\<close> reports.
  \<^item> the block raises an \<^verbatim>\<open>Exception\<close>: it is thrown into the generator at the
    \<^verbatim>\<open>yield\<close>, the handler prints it, the \<^verbatim>\<open>finally\<close> clause restores and the generator
    returns, so \<^verbatim>\<open>__exit__\<close> returns true.
  \<^item> the block is aborted by a signal: the handler does not match, the \<^verbatim>\<open>finally\<close>
    clause restores and the signal goes on.
\<close>

definition useparams_enter ::
    "layout \<Rightarrow> editable \<Rightarrow> string \<Rightarrow> pyref list
      \<Rightarrow> (editable \<times> exc list \<times> completion) + (pyref list \<times> editable)" where
  "useparams_enter L s m params =
     (case getuniqueparams L s m of
        Inl e \<Rightarrow> Inl (s, [e], Raised (UnboundLocalError ''_orig_params_''))
      | Inr (orig, s1) \<Rightarrow>
         (case setuniqueparams L s1 m params of
            Inl e \<Rightarrow>
              (case restore L s1 m orig (Raised (RuntimeError ''generator didn't yield'')) of
                 (s', c) \<Rightarrow> Inl (s', [e], c))
          | Inr (n, s2) \<Rightarrow> Inr (orig, s2)))"

definition useparams ::
    "layout \<Rightarrow> editable \<Rightarrow> string \<Rightarrow> pyref list \<Rightarrow> block \<Rightarrow> editable \<times> exc list \<times> completion" where
  "useparams L s m params blk =
     (case useparams_enter L s m params of
        Inl r \<Rightarrow> r
      | Inr (orig, s2) \<Rightarrow>
          (case blk (attrs s2) of
             (a3, Completed) \<Rightarrow>
               (case restore L (s2\<lparr>attrs := a3\<rparr>) m orig Completed of
                  (s', c) \<Rightarrow> (s', [], c))
           | (a3, Raised e) \<Rightarrow>
               (case restore L (s2\<lparr>attrs := a3\<rparr>) m orig Completed of
                  (s', c) \<Rightarrow> (s', [e], c))
           | (a3, Aborted sg) \<Rightarrow>
               (case restore L (s2\<lparr>attrs := a3\<rparr>) m orig (Aborted sg) of
                  (s', c) \<Rightarrow> (s', [], c))))"

text \<open>
  \<^verbatim>\<open>obj.setuniqueparams(m, *obj.getuniqueparams(m))\<close>, followed by \<^verbatim>\<open>obj.getparams(m)\<close>.
\<close>

definition roundtrip :: "layout \<Rightarrow> editable \<Rightarrow> string \<Rightarrow> exc + pyref list" where
  "roundtrip L s m =
     (case getuniqueparams L s m of
        Inl e \<Rightarrow> Inl e
      | Inr (us, s1) \<Rightarrow>
         (case setuniqueparams L s1 m us of
            Inl e \<Rightarrow> Inl e
          | Inr (n, s2) \<Rightarrow> Inr (getparams L s2 m)))"

subsection \<open>What the registry holds for a method\<close>

text \<open>
  The entry of the three dictionaries for method \<open>m\<close>, as the next call of
  \<^verbatim>\<open>_get_unique_params_idxs\<close> will find it: \<open>Some None\<close> when the index will be computed
  (no dictionaries yet, or no entry for \<open>m\<close>), \<open>Some (Some (idxs, maps, n))\<close> when it is
  there, and \<open>None\<close> when the dictionaries disagree, which the code never produces.
\<close>

definition cache_entry ::
    "editable \<Rightarrow> string \<Rightarrow> (nat list \<times> nat list list \<times> nat) option option" where
  "cache_entry s m =
     (case unique_params_idxs s of
        None \<Rightarrow> Some None
      | Some I \<Rightarrow>
         (case unique_params_maps s of
            None \<Rightarrow> None
          | Some M \<Rightarrow>
             (case number_of_params s of
                None \<Rightarrow> None
              | Some N \<Rightarrow>
                 (case I m of
                    None \<Rightarrow> Some None
                  | Some idxs \<Rightarrow>
                     (case M m of
                        None \<Rightarrow> None
                      | Some maps \<Rightarrow>
                         (case N m of
                            None \<Rightarrow> None
                          | Some n \<Rightarrow> Some (Some (idxs, maps, n))))))))"

text \<open>
  What every index computed by \<^verbatim>\<open>_get_unique_params_idxs\<close> for a method with the
  attribute list \<open>lay\<close> satisfies, whatever the tensors were at that time: the alias groups
  \<open>maps\<close> split the positions \<open>0..<n\<close>, \<open>idxs ! j\<close> is a member of group \<open>j\<close>, and two
  positions that read the same attribute are in the same group.
\<close>

definition index_wf :: "string list \<Rightarrow> nat list \<Rightarrow> nat list list \<Rightarrow> nat \<Rightarrow> bool" where
  "index_wf lay idxs maps n \<longleftrightarrow>
     n = length lay \<and> length idxs = length maps \<and>
     (\<forall>j<length maps. idxs ! j \<in> set (maps ! j)) \<and>
     (\<forall>j<length maps. \<forall>i\<in>set (maps ! j). i < n) \<and>
     (\<forall>i<n. \<exists>j<length maps. i \<in> set (maps ! j)) \<and>
     (\<forall>j<length maps. \<forall>j'<length maps.
        j \<noteq> j' \<longrightarrow> set (maps ! j) \<inter> set (maps ! j') = {}) \<and>
     (\<forall>j<length maps. \<forall>k<n. \<forall>k'<n.
        lay ! k = lay ! k' \<longrightarrow> k \<in> set (maps ! j) \<longrightarrow> k' \<in> set (maps ! j))"

text \<open>The registry of \<open>s\<close> for \<open>m\<close> is one that the code can have produced.\<close>

definition cache_wf :: "layout \<Rightarrow> editable \<Rightarrow> string \<Rightarrow> bool" where
  "cache_wf L s m =
     (case cache_entry s m of
        None \<Rightarrow> False
      | Some None \<Rightarrow> True
      | Some (Some (idxs, maps, n)) \<Rightarrow> index_wf (L m) idxs maps n)"

text \<open>
  Every alias group of the cached index still holds one tensor: all its positions of
  \<^verbatim>\<open>getparams(m)\<close> are the identical object.
\<close>

definition groups_hold_one :: "layout \<Rightarrow> editable \<Rightarrow> string \<Rightarrow> bool" where
  "groups_hold_one L s m =
     (case cache_entry s m of
        Some (Some (idxs, maps, n)) \<Rightarrow>
          (\<forall>g\<in>set maps. \<forall>i\<in>set g. \<forall>i'\<in>set g. getparams L s m ! i = getparams L s m ! i')
      | _ \<Rightarrow> True)"

text \<open>
  The identity pattern has not become coarser than the cached index: two positions of
  \<^verbatim>\<open>getparams(m)\<close> that hold the identical object are in the same alias group.
\<close>

definition aliases_grouped :: "layout \<Rightarrow> editable \<Rightarrow> string \<Rightarrow> bool" where
  "aliases_grouped L s m =
     (case cache_entry s m of
        Some (Some (idxs, maps, n)) \<Rightarrow>
          (\<forall>i\<in>set [0..<n]. \<forall>j\<in>set [0..<n]. getparams L s m ! i = getparams L s m ! j \<longrightarrow>
             (\<forall>g\<in>set maps. i \<in> set g \<longleftrightarrow> j \<in> set g))
      | _ \<Rightarrow> True)"

section \<open>Solving an initial value problem (xitorch/integrate/solve_ivp.py)\<close>

text \<open>
  Torch tensors are values of a type \<open>'a\<close> that is left open: their arithmetic is
  floating-point arithmetic of the library and comes in through \<open>torch_env\<close> below.
  The time grid \<^verbatim>\<open>ts\<close> is a tensor of which the code reads the shape, the entries
  \<^verbatim>\<open>ts[i]\<close> along the first axis, and \<^verbatim>\<open>requires_grad\<close>.
\<close>

record 'a grid =
  shape :: "nat list"
  rows :: "'a list"
  requires_grad :: bool

text \<open>\<^verbatim>\<open>y0\<close> and the output of \<^verbatim>\<open>fcn\<close>: one tensor, or a list or tuple of tensors.\<close>

datatype 'a yval = One 'a | Many "'a list"

fun is_list :: "'a yval \<Rightarrow> bool" where
  "is_list (One y) = False"
| "is_list (Many ys) = True"

text \<open>
  An entry of \<^verbatim>\<open>params\<close>: a tensor, with its flag \<^verbatim>\<open>requires_grad\<close>, or any other
  object.
\<close>

datatype ('a, 'o) pyparam = TensorP 'a bool | OtherP 'o

text \<open>\<^verbatim>\<open>isinstance(p, torch.Tensor)\<close>.\<close>

fun is_tensor :: "('a, 'o) pyparam \<Rightarrow> bool" where
  "is_tensor (TensorP a rg) = True"
| "is_tensor (OtherP v) = False"

text \<open>
  What \<^verbatim>\<open>TensorNonTensorSeparator(allparams, varonly=True)\<close> of line 101 keeps as a
  tensor parameter: with \<^verbatim>\<open>varonly\<close>, the tensors that require a gradient. Every other
  entry, a tensor or not, is on its non-tensor side.
\<close>

fun is_var :: "('a, 'o) pyparam \<Rightarrow> bool" where
  "is_var (TensorP a rg) = rg"
| "is_var (OtherP v) = False"

text \<open>A value of an option dictionary.\<close>

datatype optval = OStr string | ONum int

type_synonym options = "string \<rightharpoonup> optval"

text \<open>The result of \<^verbatim>\<open>solve_ivp\<close>: the samples of one tensor, or of each tensor of a list.\<close>

datatype 'a traj = TrajOne "'a list" | TrajMany "'a list list"

text \<open>
  What \<^verbatim>\<open>solve_ivp\<close> does that its caller can observe beside the result: a call of
  \<^verbatim>\<open>fcn\<close> with its arguments, the choice of a stepping function, and the call of that
  function with the time grid it is given. The calls of \<^verbatim>\<open>fcn\<close> that a stepping function
  makes happen inside \<open>Integrate\<close>.
\<close>

datatype ('a, 'o) event =
    EvalFcn 'a "'a yval" "('a, 'o) pyparam list"
  | Select string
  | Integrate string "'a grid"

type_synonym ('a, 'o) fcn = "'a \<Rightarrow> 'a yval \<Rightarrow> ('a, 'o) pyparam list \<Rightarrow> exc + 'a yval"

type_synonym ('a, 'o) flat_fcn = "'a \<Rightarrow> 'a \<Rightarrow> ('a, 'o) pyparam list \<Rightarrow> exc + 'a"

type_synonym ('a, 'o) solver =
  "('a, 'o) flat_fcn \<Rightarrow> 'a grid \<Rightarrow> 'a \<Rightarrow> ('a, 'o) pyparam list \<Rightarrow> options \<Rightarrow> exc + 'a list"

text \<open>
  The functions that \<^verbatim>\<open>solve_ivp\<close> imports and that are not part of the source, taken as
  parameters: the debug switch and its check of the arguments, the four stepping
  functions, the object parameters of the wrapped function, the packer of lists of
  tensors, and the tensor operations of the backward pass. The check
  \<^verbatim>\<open>assert_fcn_params(fcn, args)\<close> is given \<^verbatim>\<open>fcn\<close> and may call it: its value here is the
  list of the arguments of the calls of \<^verbatim>\<open>fcn\<close> it makes, in order, and the exception it
  raises, if any.
\<close>

record ('a, 'o) torch_env =
  is_debug_enabled :: bool
  assert_fcn_params ::
    "('a, 'o) fcn \<Rightarrow> 'a \<Rightarrow> 'a yval \<Rightarrow> ('a, 'o) pyparam list
      \<Rightarrow> ('a \<times> 'a yval \<times> ('a, 'o) pyparam list) list \<times> exc option"
  rk4_ivp :: "('a, 'o) solver"
  rk38_ivp :: "('a, 'o) solver"
  rk23_adaptive :: "('a, 'o) solver"
  rk45_adaptive :: "('a, 'o) solver"
  objparams :: "('a, 'o) pyparam list"
  flatten :: "'a list \<Rightarrow> 'a"
  pack :: "'a list \<Rightarrow> 'a \<Rightarrow> 'a list"
  pack_traj :: "'a list \<Rightarrow> 'a list \<Rightarrow> 'a list list"
  zeros_like :: "'a \<Rightarrow> 'a"
  add :: "'a \<Rightarrow> 'a \<Rightarrow> 'a"
  sub :: "'a \<Rightarrow> 'a \<Rightarrow> 'a"
  dot :: "'a \<Rightarrow> 'a \<Rightarrow> 'a"
  reshape1 :: "'a \<Rightarrow> 'a"
  cat_view :: "'a list \<Rightarrow> nat list \<Rightarrow> 'a"

text \<open>\<^verbatim>\<open>ts[0]\<close>: a tensor without axes cannot be indexed, and an empty axis has no entry.\<close>

definition grid_first :: "'a grid \<Rightarrow> exc + 'a" where
  "grid_first ts = (if shape ts = [] then Inl IndexError else py_get (rows ts) 0)"

text \<open>
  Modelled from the spec: \<^verbatim>\<open>assert_runtime\<close> is not part of the source; a failed check is
  the runtime error with the message given.
\<close>

definition assert_runtime :: "bool \<Rightarrow> string \<Rightarrow> exc option" where
  "assert_runtime cond msg = (if cond then None else Some (RuntimeError msg))"

text \<open>
  Modelled from the spec: \<^verbatim>\<open>set_default_option\<close> is not part of the source; the options
  given are ``merged over'' the defaults, in a new dictionary.
\<close>

definition set_default_option :: "options \<Rightarrow> options \<Rightarrow> options" where
  "set_default_option defopt opt = defopt ++ opt"

text \<open>\<^verbatim>\<open>str.lower()\<close> on the ASCII letters; strings here are byte strings.\<close>

definition ascii_lower :: "char \<Rightarrow> char" where
  "ascii_lower c =
     (let n = (of_char c :: nat) in if 65 \<le> n \<and> n \<le> 90 then char_of (n + 32) else c)"

definition lower :: "string \<Rightarrow> string" where
  "lower s = map ascii_lower s"

text \<open>\<^verbatim>\<open>"%s" % v\<close>.\<close>

fun opt_str :: "optval \<Rightarrow> string" where
  "opt_str (OStr s) = s"
| "opt_str (ONum n) = ''<number>''"

text \<open>
  What \<^verbatim>\<open>forward\<close> stores in \<^verbatim>\<open>ctx\<close> for \<^verbatim>\<open>backward\<close>. \<open>ctx_param_sep\<close> is the separator:
  it remembers the parameter list, hence which positions are tensors.
\<close>

record ('a, 'o) ctx =
  ctx_bck_config :: options
  ctx_param_sep :: "('a, 'o) pyparam list"
  ctx_ts :: "'a grid"
  ctx_y0 :: 'a
  ctx_tensor_params :: "'a list"
  ctx_pfcn :: "('a, 'o) flat_fcn"
  ctx_nparams :: nat
  ctx_yt :: "'a list"
  ctx_ts_requires_grad :: bool

text \<open>\<^verbatim>\<open>param_sep.get_tensor_params()\<close>.\<close>

fun get_tensor_params :: "('a, 'o) pyparam list \<Rightarrow> 'a list" where
  "get_tensor_params [] = []"
| "get_tensor_params (p # ps) =
     (case p of
        TensorP a rg \<Rightarrow> (if rg then a # get_tensor_params ps else get_tensor_params ps)
      | OtherP v \<Rightarrow> get_tensor_params ps)"

text \<open>
  The dictionary lookup of \<^verbatim>\<open>forward\<close>, lines 90 to 95: \<open>None\<close> stands for \<^verbatim>\<open>KeyError\<close>.
\<close>

definition solver_table :: "('a, 'o) torch_env \<Rightarrow> string \<rightharpoonup> ('a, 'o) solver" where
  "solver_table env =
     [''rk4'' \<mapsto> rk4_ivp env, ''rk38'' \<mapsto> rk38_ivp env,
      ''rk23'' \<mapsto> rk23_adaptive env, ''rk45'' \<mapsto> rk45_adaptive env]"

text \<open>
  \<^verbatim>\<open>_SolveIVP.forward\<close>. \<^verbatim>\<open>config.pop("method")\<close> removes the key from \<^verbatim>\<open>config\<close>; the
  handler of the failed lookup then reads \<^verbatim>\<open>config["method"]\<close>.
\<close>

definition forward ::
    "('a, 'o) torch_env \<Rightarrow> ('a, 'o) flat_fcn \<Rightarrow> 'a grid \<Rightarrow> options \<Rightarrow> options \<Rightarrow> nat \<Rightarrow> 'a
      \<Rightarrow> ('a, 'o) pyparam list \<Rightarrow> ('a, 'o) event list \<times> (exc + 'a list \<times> ('a, 'o) ctx)" where
  "forward env pfcn ts fwd_options bck_options nparams y0 allparams =
     (let config = set_default_option [''method'' \<mapsto> OStr ''rk45''] fwd_options;
          bck_config = set_default_option config bck_options;
          params = take nparams allparams
      in case config ''method'' of
           None \<Rightarrow> ([], Inl (KeyError ''method''))
         | Some orig_method \<Rightarrow>
            (let config = config(''method'' := None) in
             case orig_method of
               ONum k \<Rightarrow> ([], Inl (AttributeError ''lower''))
             | OStr name \<Rightarrow>
                (let method = lower name in
                 case solver_table env method of
                   None \<Rightarrow>
                     (case config ''method'' of
                        None \<Rightarrow> ([], Inl (KeyError ''method''))
                      | Some v \<Rightarrow>
                          ([], Inl (RuntimeError (''Unknown solve_ivp method: '' @ opt_str v))))
                 | Some solver \<Rightarrow>
                     (case solver pfcn ts y0 params config of
                        Inl e \<Rightarrow> ([Select method, Integrate method ts], Inl e)
                      | Inr yt \<Rightarrow>
                          ([Select method, Integrate method ts],
                           Inr (yt, \<lparr>ctx_bck_config = bck_config,
                                     ctx_param_sep = allparams,
                                     ctx_ts = ts,
                                     ctx_y0 = y0,
                                     ctx_tensor_params = get_tensor_params allparams,
                                     ctx_pfcn = pfcn,
                                     ctx_nparams = nparams,
                                     ctx_yt = yt,
                                     ctx_ts_requires_grad = requires_grad ts\<rparr>))))))"

text \<open>
  \<^verbatim>\<open>pfcn\<close> as a stepping function calls it when \<^verbatim>\<open>y0\<close> is one tensor, and \<^verbatim>\<open>pfcn2\<close>,
  which packs and flattens, when \<^verbatim>\<open>y0\<close> is a list. An output of the other kind is not a
  tensor the stepping function can add to the state.
\<close>

definition pfcn_one :: "('a, 'o) fcn \<Rightarrow> ('a, 'o) flat_fcn" where
  "pfcn_one fcn t y params =
     (case fcn t (One y) params of
        Inl e \<Rightarrow> Inl e
      | Inr (One d) \<Rightarrow> Inr d
      | Inr (Many ds) \<Rightarrow> Inl TypeError)"

definition pfcn2 :: "('a, 'o) torch_env \<Rightarrow> 'a list \<Rightarrow> ('a, 'o) fcn \<Rightarrow> ('a, 'o) flat_fcn" where
  "pfcn2 env y0 fcn t ytensor params =
     (case fcn t (Many (pack env y0 ytensor)) params of
        Inl e \<Rightarrow> Inl e
      | Inr (Many res_list) \<Rightarrow> Inr (flatten env res_list)
      | Inr (One d) \<Rightarrow> Inl TypeError)"

text \<open>
  Lines 47 and 48: in the debug mode, \<^verbatim>\<open>assert_fcn_params(fcn, (ts[0], y0, *params))\<close>.
  The value is the calls of \<^verbatim>\<open>fcn\<close> made by the check and the exception raised, if any.
\<close>

definition debug_check ::
    "('a, 'o) torch_env \<Rightarrow> ('a, 'o) fcn \<Rightarrow> 'a grid \<Rightarrow> 'a yval \<Rightarrow> ('a, 'o) pyparam list
      \<Rightarrow> ('a, 'o) event list \<times> exc option" where
  "debug_check env fcn ts y0 params =
     (if is_debug_enabled env
      then (case grid_first ts of
              Inl e \<Rightarrow> ([], Some e)
            | Inr t0 \<Rightarrow>
               (case assert_fcn_params env fcn t0 y0 params of
                  (calls, r) \<Rightarrow> (map (\<lambda>(t, y, ps). EvalFcn t y ps) calls, r)))
      else ([], None))"

text \<open>Lines 49 to 74.\<close>

definition solve_ivp_checked ::
    "('a, 'o) torch_env \<Rightarrow> ('a, 'o) fcn \<Rightarrow> 'a grid \<Rightarrow> 'a yval \<Rightarrow> ('a, 'o) pyparam list
      \<Rightarrow> options \<Rightarrow> options \<Rightarrow> ('a, 'o) event list \<times> (exc + 'a traj)" where
  "solve_ivp_checked env fcn ts y0 params fwd_options bck_options =
     (case assert_runtime (length (shape ts) = 1) ''Argument ts must be a 1D tensor'' of
        Some e \<Rightarrow> ([], Inl e)
      | None \<Rightarrow>
         (case grid_first ts of
            Inl e \<Rightarrow> ([], Inl e)
          | Inr t0 \<Rightarrow>
             (case fcn t0 y0 params of
                Inl e \<Rightarrow> ([EvalFcn t0 y0 params], Inl e)
              | Inr dydt \<Rightarrow>
                 (if is_list y0 \<noteq> is_list dydt
                  then ([EvalFcn t0 y0 params],
                        Inl (RuntimeError ''The y0 and output of fcn must both be tuple or a tensor''))
                  else
                   (case y0 of
                      Many ys \<Rightarrow>
                        (case forward env (pfcn2 env ys fcn) ts fwd_options bck_options
                                (length params) (flatten env ys) (params @ objparams env) of
                           (evs, Inl e) \<Rightarrow> (EvalFcn t0 y0 params # evs, Inl e)
                         | (evs, Inr (res, c)) \<Rightarrow>
                             (EvalFcn t0 y0 params # evs, Inr (TrajMany (pack_traj env ys res))))
                    | One y \<Rightarrow>
                        (case forward env (pfcn_one fcn) ts fwd_options bck_options
                                (length params) y (params @ objparams env) of
                           (evs, Inl e) \<Rightarrow> (EvalFcn t0 y0 params # evs, Inl e)
                         | (evs, Inr (yt, c)) \<Rightarrow>
                             (EvalFcn t0 y0 params # evs, Inr (TrajOne yt))))))))"

text \<open>
  \<^verbatim>\<open>solve_ivp\<close>, lines 47 to 74. The result is the events in the order they happen and
  the value returned or the exception raised.
\<close>

definition solve_ivp ::
    "('a, 'o) torch_env \<Rightarrow> ('a, 'o) fcn \<Rightarrow> 'a grid \<Rightarrow> 'a yval \<Rightarrow> ('a, 'o) pyparam list
      \<Rightarrow> options \<Rightarrow> options \<Rightarrow> ('a, 'o) event list \<times> (exc + 'a traj)" where
  "solve_ivp env fcn ts y0 params fwd_options bck_options =
     (case debug_check env fcn ts y0 params of
        (dbg, Some e) \<Rightarrow> (dbg, Inl e)
      | (dbg, None) \<Rightarrow>
         (case solve_ivp_checked env fcn ts y0 params fwd_options bck_options of
            (evs, r) \<Rightarrow> (dbg @ evs, r)))"

text \<open>
  The method name that \<^verbatim>\<open>forward\<close> finds is one of the four of its table: the condition
  under which the lookup of lines 90 to 95 succeeds.
\<close>

definition method_known :: "options \<Rightarrow> bool" where
  "method_known fwd_options =
     (case set_default_option [''method'' \<mapsto> OStr ''rk45''] fwd_options ''method'' of
        Some (OStr name) \<Rightarrow> lower name \<in> {''rk4'', ''rk38'', ''rk23'', ''rk45''}
      | _ \<Rightarrow> False)"

text \<open>The property of a time grid that the documentation asks for.\<close>

definition strictly_monotonic :: "('a::linorder) list \<Rightarrow> bool" where
  "strictly_monotonic xs \<longleftrightarrow> sorted_wrt (<) xs \<or> sorted_wrt (>) xs"

subsection \<open>The backward pass\<close>

text \<open>
  The position that an integer index \<open>i\<close> denotes in a list of \<open>len\<close> entries: an index
  below zero counts back from the end, and \<open>None\<close> stands for \<^verbatim>\<open>IndexError\<close>.
\<close>

definition py_pos :: "nat \<Rightarrow> int \<Rightarrow> nat option" where
  "py_pos len i =
     (if 0 \<le> i then (if i < int len then Some (nat i) else None)
      else (if - i \<le> int len then Some (nat (int len + i)) else None))"

text \<open>\<^verbatim>\<open>xs[i]\<close> and \<^verbatim>\<open>xs[i] = v\<close> for any integer \<open>i\<close>.\<close>

definition py_index :: "'a list \<Rightarrow> int \<Rightarrow> exc + 'a" where
  "py_index xs i =
     (case py_pos (length xs) i of None \<Rightarrow> Inl IndexError | Some k \<Rightarrow> Inr (xs ! k))"

definition py_store :: "'a list \<Rightarrow> int \<Rightarrow> 'a \<Rightarrow> exc + 'a list" where
  "py_store xs i v =
     (case py_pos (length xs) i of None \<Rightarrow> Inl IndexError | Some k \<Rightarrow> Inr (xs[k := v]))"

text \<open>\<^verbatim>\<open>xs[-n:]\<close> when \<open>n > 0\<close> and \<^verbatim>\<open>xs[0:0]\<close> otherwise: the slice \<^verbatim>\<open>dLdp_slice\<close>.\<close>

definition dLdp_slice :: "nat \<Rightarrow> 'a list \<Rightarrow> 'a list" where
  "dLdp_slice n xs = (if n > 0 then drop (length xs - n) xs else [])"

text \<open>A slot of the tuple of gradients: \<open>Absent\<close> is \<^verbatim>\<open>None\<close>.\<close>

datatype 'a slot = Absent | Grad 'a

text \<open>
  Modelled from the spec: \<^verbatim>\<open>TensorNonTensorSeparator\<close> is not part of the source. It
  ``reconstructs the original interleaved order given just the tensor subset plus knowledge
  of which original positions were non-tensor'': the positions of the remembered list
  that the separator keeps as tensor parameters take the items of the first list in order,
  the other positions those of the second. Lists whose lengths do not fit the remembered
  positions are refused.
\<close>

fun interleave :: "('a, 'o) pyparam list \<Rightarrow> 'x list \<Rightarrow> 'x list \<Rightarrow> 'x list" where
  "interleave [] xs ys = []"
| "interleave (p # ps) xs ys =
     (if is_var p
      then (case xs of [] \<Rightarrow> [] | x # xs' \<Rightarrow> x # interleave ps xs' ys)
      else (case ys of [] \<Rightarrow> [] | y # ys' \<Rightarrow> y # interleave ps xs ys'))"

definition reconstruct_params ::
    "('a, 'o) pyparam list \<Rightarrow> 'x list \<Rightarrow> 'x list \<Rightarrow> exc + 'x list" where
  "reconstruct_params sep tensor_items other_items =
     (if length tensor_items = length (filter is_var sep) \<and>
         length other_items = length (filter (\<lambda>p. \<not> is_var p) sep)
      then Inr (interleave sep tensor_items other_items)
      else Inl (RuntimeError ''reconstruct_params''))"

text \<open>
  The state of the loop of \<^verbatim>\<open>backward\<close>: the augmented state
  \<^verbatim>\<open>states = [y, dL/dy, dL/dt, dL/dp...]\<close>, the list \<^verbatim>\<open>grad_ts\<close> when the time grid
  requires a gradient, and \<^verbatim>\<open>t_flip_idx\<close>.
\<close>

record 'a bstate =
  states :: "'a list"
  grad_ts :: "'a option list"
  t_flip_idx :: int

text \<open>
  The two closures of \<^verbatim>\<open>backward\<close> that go through automatic differentiation, taken as
  parameters: \<open>pfunc2\<close> gives \<^verbatim>\<open>pfunc2(t, y, tensor_params)[0]\<close>, the right-hand side, and
  \<open>new_pfunc\<close> is the augmented right-hand side given to the recursive \<^verbatim>\<open>solve_ivp\<close>.
\<close>

record ('a, 'o) closures =
  pfunc2 :: "'a \<Rightarrow> 'a \<Rightarrow> 'a list \<Rightarrow> exc + 'a"
  new_pfunc :: "('a, 'o) fcn"

text \<open>\<^verbatim>\<open>[out[-1] for out in outs]\<close>.\<close>

fun last_samples :: "'a list list \<Rightarrow> exc + 'a list" where
  "last_samples [] = Inr []"
| "last_samples (out # outs) =
     (case py_index out (- 1) of
        Inl e \<Rightarrow> Inl e
      | Inr x \<Rightarrow> (case last_samples outs of Inl e \<Rightarrow> Inl e | Inr xs \<Rightarrow> Inr (x # xs)))"

text \<open>
  Lines 198 to 201: the recursive call of \<^verbatim>\<open>solve_ivp\<close> on the augmented state over
  \<^verbatim>\<open>ts_flip[i:i+2]\<close>, and the samples at the earliest time.
\<close>

definition substep ::
    "('a, 'o) torch_env \<Rightarrow> ('a, 'o) closures \<Rightarrow> ('a, 'o) ctx \<Rightarrow> nat \<Rightarrow> 'a list \<Rightarrow> exc + 'a list" where
  "substep env cl c i sts =
     (let ts_flip = rev (rows (ctx_ts c));
          sl = take 2 (drop i ts_flip);
          ts2 = \<lparr>shape = [length sl], rows = sl, requires_grad = requires_grad (ctx_ts c)\<rparr>
      in case snd (solve_ivp env (new_pfunc cl) ts2 (Many sts)
                     (map (\<lambda>a. TensorP a True) (ctx_tensor_params c))
                     (ctx_bck_config c) (ctx_bck_config c)) of
           Inl e \<Rightarrow> Inl e
         | Inr (TrajOne yt) \<Rightarrow> Inl TypeError
         | Inr (TrajMany outs) \<Rightarrow> last_samples outs)"

text \<open>Lines 191 to 195, run when the time grid requires a gradient.\<close>

definition time_grad_step ::
    "('a, 'o) torch_env \<Rightarrow> ('a, 'o) closures \<Rightarrow> ('a, 'o) ctx \<Rightarrow> 'a list \<Rightarrow> nat \<Rightarrow> 'a bstate
      \<Rightarrow> exc + 'a bstate" where
  "time_grad_step env cl c grad_yt i st =
     (case py_get (rev (rows (ctx_ts c))) i of
        Inl e \<Rightarrow> Inl e
      | Inr t \<Rightarrow>
      (case py_get (states st) 0 of
        Inl e \<Rightarrow> Inl e
      | Inr y \<Rightarrow>
      (case pfunc2 cl t y (ctx_tensor_params c) of
        Inl e \<Rightarrow> Inl e
      | Inr feval \<Rightarrow>
      (case py_index grad_yt (t_flip_idx st) of
        Inl e \<Rightarrow> Inl e
      | Inr g \<Rightarrow>
      (let dLdt1 = dot env (reshape1 env feval) (reshape1 env g) in
       case py_get (states st) 2 of
        Inl e \<Rightarrow> Inl e
      | Inr dLdt \<Rightarrow>
      (case py_store (grad_ts st) (t_flip_idx st) (Some (reshape1 env dLdt1)) of
        Inl e \<Rightarrow> Inl e
      | Inr gts \<Rightarrow>
          Inr (st\<lparr>states := (states st)[2 := sub env dLdt dLdt1], grad_ts := gts\<rparr>)))))))"

text \<open>The body of the loop of \<^verbatim>\<open>backward\<close>, lines 190 to 205, for the index \<open>i\<close>.\<close>

definition backward_step ::
    "('a, 'o) torch_env \<Rightarrow> ('a, 'o) closures \<Rightarrow> ('a, 'o) ctx \<Rightarrow> 'a list \<Rightarrow> 'a bstate \<Rightarrow> nat
      \<Rightarrow> exc + 'a bstate" where
  "backward_step env cl c grad_yt st i =
     (case (if ctx_ts_requires_grad c then time_grad_step env cl c grad_yt i st else Inr st) of
        Inl e \<Rightarrow> Inl e
      | Inr st1 \<Rightarrow>
      (let idx = t_flip_idx st1 - 1 in
       case substep env cl c i (states st1) of
        Inl e \<Rightarrow> Inl e
      | Inr sts \<Rightarrow>
      (case py_index (ctx_yt c) idx of
        Inl e \<Rightarrow> Inl e
      | Inr y \<Rightarrow>
      (case py_set sts 0 y of
        Inl e \<Rightarrow> Inl e
      | Inr sts1 \<Rightarrow>
      (case py_index grad_yt idx of
        Inl e \<Rightarrow> Inl e
      | Inr g \<Rightarrow>
      (case py_get sts1 1 of
        Inl e \<Rightarrow> Inl e
      | Inr dLdy \<Rightarrow>
          Inr (st1\<lparr>states := sts1[1 := add env g dLdy], t_flip_idx := idx\<rparr>)))))))"

text \<open>The loop over a list of indices; an exception ends it.\<close>

fun run_steps ::
    "('a, 'o) torch_env \<Rightarrow> ('a, 'o) closures \<Rightarrow> ('a, 'o) ctx \<Rightarrow> 'a list \<Rightarrow> nat list \<Rightarrow> 'a bstate
      \<Rightarrow> exc + 'a bstate" where
  "run_steps env cl c grad_yt [] st = Inr st"
| "run_steps env cl c grad_yt (i # is) st =
     (case backward_step env cl c grad_yt st i of
        Inl e \<Rightarrow> Inl e
      | Inr st' \<Rightarrow> run_steps env cl c grad_yt is st')"

text \<open>Lines 182 to 188: the augmented state at the last time index.\<close>

definition backward_init ::
    "('a, 'o) torch_env \<Rightarrow> ('a, 'o) ctx \<Rightarrow> 'a list \<Rightarrow> exc + 'a bstate" where
  "backward_init env c grad_yt =
     (case py_index (ctx_yt c) (- 1) of
        Inl e \<Rightarrow> Inl e
      | Inr y \<Rightarrow>
      (case py_index grad_yt (- 1) of
        Inl e \<Rightarrow> Inl e
      | Inr g \<Rightarrow>
      (case grid_first (ctx_ts c) of
        Inl e \<Rightarrow> Inl e
      | Inr t0 \<Rightarrow>
          Inr \<lparr>states = [y, g, zeros_like env t0] @ map (zeros_like env) (ctx_tensor_params c),
               grad_ts = replicate (length (rows (ctx_ts c))) None,
               t_flip_idx = - 1\<rparr>)))"

text \<open>The loop state after the first \<open>k\<close> passes through the loop body.\<close>

definition backward_prefix ::
    "('a, 'o) torch_env \<Rightarrow> ('a, 'o) closures \<Rightarrow> ('a, 'o) ctx \<Rightarrow> 'a list \<Rightarrow> nat \<Rightarrow> exc + 'a bstate" where
  "backward_prefix env cl c grad_yt k =
     (case backward_init env c grad_yt of
        Inl e \<Rightarrow> Inl e
      | Inr st \<Rightarrow> run_steps env cl c grad_yt [0..<k] st)"

text \<open>\<^verbatim>\<open>torch.cat(grad_ts)\<close> needs every entry to be a tensor.\<close>

fun all_some :: "'a option list \<Rightarrow> exc + 'a list" where
  "all_some [] = Inr []"
| "all_some (None # xs) = Inl TypeError"
| "all_some (Some x # xs) = (case all_some xs of Inl e \<Rightarrow> Inl e | Inr ys \<Rightarrow> Inr (x # ys))"

text \<open>Lines 207 to 212: the gradient with respect to the time grid, or \<^verbatim>\<open>None\<close>.\<close>

definition finish_grad_ts ::
    "('a, 'o) torch_env \<Rightarrow> ('a, 'o) ctx \<Rightarrow> 'a bstate \<Rightarrow> exc + 'a slot" where
  "finish_grad_ts env c st =
     (if ctx_ts_requires_grad c
      then (case py_get (states st) 2 of
              Inl e \<Rightarrow> Inl e
            | Inr dLdt \<Rightarrow>
               (case py_store (grad_ts st) 0 (Some (reshape1 env dLdt)) of
                  Inl e \<Rightarrow> Inl e
                | Inr gts \<Rightarrow>
                   (case all_some gts of
                      Inl e \<Rightarrow> Inl e
                    | Inr gs \<Rightarrow> Inr (Grad (cat_view env gs (shape (ctx_ts c)))))))
      else Inr Absent)"

text \<open>
  \<^verbatim>\<open>_SolveIVP.backward\<close>: the tuple returned, one slot for each argument of \<^verbatim>\<open>forward\<close>
  after \<^verbatim>\<open>ctx\<close>: \<^verbatim>\<open>pfcn, ts, fwd_options, bck_options, nparams, y0, *allparams\<close>.
\<close>

definition backward ::
    "('a, 'o) torch_env \<Rightarrow> ('a, 'o) closures \<Rightarrow> ('a, 'o) ctx \<Rightarrow> 'a list \<Rightarrow> exc + 'a slot list" where
  "backward env cl c grad_yt =
     (let tensor_params = ctx_tensor_params c;
          ntensor_params = length tensor_params
      in case reconstruct_params (ctx_param_sep c) (map (\<lambda>a. TensorP a True) tensor_params)
                (filter (\<lambda>p. \<not> is_var p) (ctx_param_sep c)) of
           Inl e \<Rightarrow> Inl e
         | Inr allparams \<Rightarrow>
         (case backward_prefix env cl c grad_yt (length (rows (ctx_ts c)) - 1) of
           Inl e \<Rightarrow> Inl e
         | Inr st \<Rightarrow>
         (case finish_grad_ts env c st of
           Inl e \<Rightarrow> Inl e
         | Inr gts \<Rightarrow>
         (case py_get (states st) 1 of
           Inl e \<Rightarrow> Inl e
         | Inr grad_y0 \<Rightarrow>
         (let grad_tensor_params = dLdp_slice ntensor_params (states st);
              grad_ntensor_params = replicate (length allparams - ntensor_params) Absent
          in case reconstruct_params (ctx_param_sep c) (map Grad grad_tensor_params)
                    grad_ntensor_params of
               Inl e \<Rightarrow> Inl e
             | Inr grad_params \<Rightarrow>
                 Inr ([Absent, gts, Absent, Absent, Absent, Grad grad_y0] @ grad_params))))))"

subsection \<open>Example objects\<close>

text \<open>
  A class whose method \<^verbatim>\<open>forward\<close> consumes the attributes \<^verbatim>\<open>A\<close> and \<^verbatim>\<open>B\<close>, in this
  order, and a new object of it holding the tensors \<open>x\<close> and \<open>y\<close>.
\<close>

definition layout_AB :: layout where
  "layout_AB m = (if m = ''forward'' then [''A'', ''B''] else [])"

definition obj_AB :: "pyref \<Rightarrow> pyref \<Rightarrow> editable" where
  "obj_AB x y =
     \<lparr>attrs = (\<lambda>a. if a = ''A'' then x else if a = ''B'' then y else PyNone),
      unique_params_idxs = None, unique_params_maps = None, number_of_params = None\<rparr>"

text \<open>
  \<^verbatim>\<open>A\<close> and \<^verbatim>\<open>B\<close> hold the identical tensor when the index is computed; then
  \<^verbatim>\<open>obj.setparams("forward", t1, t2)\<close> installs two different tensors.
\<close>

definition split_obj :: editable where
  "split_obj =
     (case getuniqueparams layout_AB (obj_AB (Tensor 0) (Tensor 0)) ''forward'' of
        Inl e \<Rightarrow> obj_AB (Tensor 0) (Tensor 0)
      | Inr (us, s1) \<Rightarrow>
          (case setparams layout_AB s1 ''forward'' [Tensor 1, Tensor 2] of
             Inl e \<Rightarrow> s1
           | Inr (k, s2) \<Rightarrow> s2))"

text \<open>
  \<^verbatim>\<open>A\<close> and \<^verbatim>\<open>B\<close> hold different tensors when the index is computed; then
  \<^verbatim>\<open>obj.setuniqueparams("forward", t3, t3)\<close> installs one tensor at both positions.
\<close>

definition merged_obj :: editable where
  "merged_obj =
     (case getuniqueparams layout_AB (obj_AB (Tensor 1) (Tensor 2)) ''forward'' of
        Inl e \<Rightarrow> obj_AB (Tensor 1) (Tensor 2)
      | Inr (us, s1) \<Rightarrow>
          (case setuniqueparams layout_AB s1 ''forward'' [Tensor 3, Tensor 3] of
             Inl e \<Rightarrow> s1
           | Inr (k, s2) \<Rightarrow> s2))"

text \<open>
  A class whose method \<^verbatim>\<open>forward\<close> consumes three attributes. The index of the object
  is computed while the three hold the identical tensor; then
  \<^verbatim>\<open>obj.setparams("forward", t1, t1, t2)\<close> leaves the identical tensor at the first two
  positions only.
\<close>

definition layout_ABC :: layout where
  "layout_ABC m = (if m = ''forward'' then [''A'', ''B'', ''C''] else [])"

definition obj_AAA :: editable where
  "obj_AAA =
     \<lparr>attrs = (\<lambda>a. if a = ''A'' \<or> a = ''B'' \<or> a = ''C'' then Tensor 0 else PyNone),
      unique_params_idxs = None, unique_params_maps = None, number_of_params = None\<rparr>"

definition coarse_obj :: editable where
  "coarse_obj =
     (case getuniqueparams layout_ABC obj_AAA ''forward'' of
        Inl e \<Rightarrow> obj_AAA
      | Inr (us, s1) \<Rightarrow>
          (case setparams layout_ABC s1 ''forward'' [Tensor 1, Tensor 1, Tensor 2] of
             Inl e \<Rightarrow> s1
           | Inr (k, s2) \<Rightarrow> s2))"

text \<open>A block that rebinds \<^verbatim>\<open>A\<close> and then raises.\<close>

definition failing_block :: block where
  "failing_block a = (a(''A'' := Tensor 9), Raised (UserError ''boom''))"

text \<open>A block that rebinds \<^verbatim>\<open>A\<close> and is then interrupted from the keyboard.\<close>

definition interrupted_block :: block where
  "interrupted_block a = (a(''A'' := Tensor 9), Aborted KeyboardInterrupt)"

subsection \<open>An example solver setting\<close>

text \<open>
  A small setting in which the functions above run: a tensor is the list of its integer
  entries, the four stepping functions are one explicit Euler rule, lists of tensors are
  packed by concatenation, and the debug mode is off.
\<close>

type_synonym vec = "int list"

fun euler :: "(vec, string) flat_fcn \<Rightarrow> vec list \<Rightarrow> vec \<Rightarrow> (vec, string) pyparam list
    \<Rightarrow> exc + vec list" where
  "euler f [] y ps = Inr []"
| "euler f [t] y ps = Inr [y]"
| "euler f (t # t' # ts) y ps =
     (case f t y ps of
        Inl e \<Rightarrow> Inl e
      | Inr d \<Rightarrow>
         (case euler f (t' # ts) (map2 (\<lambda>a b. a + (hd t' - hd t) * b) y d) ps of
            Inl e \<Rightarrow> Inl e
          | Inr ys \<Rightarrow> Inr (y # ys)))"

definition euler_ivp :: "(vec, string) solver" where
  "euler_ivp f ts y0 ps config = euler f (rows ts) y0 ps"

fun unflatten :: "nat list \<Rightarrow> 'b list \<Rightarrow> 'b list list" where
  "unflatten [] xs = []"
| "unflatten (n # ns) xs = take n xs # unflatten ns (drop n xs)"

definition demo_env :: "(vec, string) torch_env" where
  "demo_env =
     \<lparr>is_debug_enabled = False,
      assert_fcn_params = (\<lambda>f t y ps. ([], None)),
      rk4_ivp = euler_ivp, rk38_ivp = euler_ivp,
      rk23_adaptive = euler_ivp, rk45_adaptive = euler_ivp,
      objparams = [],
      flatten = concat,
      pack = (\<lambda>y0 y. unflatten (map length y0) y),
      pack_traj = (\<lambda>y0 res. map (\<lambda>k. map (\<lambda>y. unflatten (map length y0) y ! k) res) [0..<length y0]),
      zeros_like = map (\<lambda>x. 0),
      add = map2 (+),
      sub = map2 (-),
      dot = (\<lambda>u v. [sum_list (map2 (*) u v)]),
      reshape1 = (\<lambda>u. u),
      cat_view = (\<lambda>us shp. concat us)\<rparr>"


text \<open>The right-hand side \<^verbatim>\<open>f(t, y, a) = a * y\<close> of the test of the gradients.\<close>

definition demo_fcn :: "(vec, string) fcn" where
  "demo_fcn t y ps =
     (case ps of
        TensorP a rg # rest \<Rightarrow>
          (case y of
             One v \<Rightarrow> Inr (One (map2 (*) a v))
           | Many vs \<Rightarrow> Inr (Many (map (map2 (*) a) vs)))
      | _ \<Rightarrow> Inl TypeError)"

text \<open>
  Stand-ins for the two closures of \<^verbatim>\<open>backward\<close>: the right-hand side itself, and an
  augmented right-hand side that is zero.
\<close>

definition demo_closures :: "(vec, string) closures" where
  "demo_closures =
     \<lparr>pfunc2 = (\<lambda>t y tps. Inr y),
      new_pfunc = (\<lambda>t y ps.
         case y of One v \<Rightarrow> Inr (One (map (\<lambda>x. 0) v))
                 | Many vs \<Rightarrow> Inr (Many (map (map (\<lambda>x. 0)) vs)))\<rparr>"

definition grid_012 :: "vec grid" where
  "grid_012 = \<lparr>shape = [3], rows = [[0], [1], [2]], requires_grad = False\<rparr>"

definition grid_021 :: "vec grid" where
  "grid_021 = \<lparr>shape = [3], rows = [[0], [2], [1]], requires_grad = False\<rparr>"

definition grid_2x2 :: "vec grid" where
  "grid_2x2 = \<lparr>shape = [2, 2], rows = [[0, 1], [2, 3]], requires_grad = False\<rparr>"

text \<open>
  The context that \<^verbatim>\<open>forward\<close> leaves for the call
  \<^verbatim>\<open>solve_ivp(fcn, ts, y0, params=(a, "note"))\<close> on the grid \<open>[0, 1, 2]\<close>.
\<close>

definition demo_ctx :: "(vec, string) ctx" where
  "demo_ctx =
     snd (projr (snd (forward demo_env (pfcn_one demo_fcn) grid_012 Map.empty Map.empty 2 [1]
                        [TensorP [2] True, OtherP ''note''])))"


section \<open>Notions used in the proofs\<close>

text \<open>
  The positions below \<open>k\<close> at which the parameter list \<open>G\<close> holds the object with id \<open>x\<close>,
  and the invariant of the loop of \<^verbatim>\<open>_get_unique_params_idxs\<close> after \<open>k\<close> positions: the
  ids are distinct, they are the ids seen so far, group \<open>j\<close> is the list of positions of
  id \<open>j\<close>, and \<open>idxs\<close> holds the first position of every group.
\<close>

definition positions :: "pyref list \<Rightarrow> nat \<Rightarrow> nat \<Rightarrow> nat list" where
  "positions G k x = filter (\<lambda>i. py_id (G ! i) = x) [0..<k]"

definition uniq_inv :: "pyref list \<Rightarrow> nat \<Rightarrow> nat list \<times> nat list \<times> nat list list \<Rightarrow> bool" where
  "uniq_inv G k st = (case st of (ids, idxs, maps) \<Rightarrow>
     distinct ids \<and> set ids = (\<lambda>i. py_id (G ! i)) ` {..<k} \<and>
     maps = map (positions G k) ids \<and> idxs = map hd maps)"

text \<open>
  The events of \<^verbatim>\<open>forward\<close>: it selects and calls a stepping function when the method
  name is known, and does neither otherwise.
\<close>

definition method_events :: "options \<Rightarrow> 'a grid \<Rightarrow> ('a, 'o) event list" where
  "method_events fwd_options ts =
     (case set_default_option [''method'' \<mapsto> OStr ''rk45''] fwd_options ''method'' of
        Some (OStr name) \<Rightarrow>
          (if lower name \<in> {''rk4'', ''rk38'', ''rk23'', ''rk45''}
           then [Select (lower name), Integrate (lower name) ts] else [])
      | _ \<Rightarrow> [])"

section \<open>The index of unique parameters\<close>

lemma list_index_None: "list_index xs x = None \<longleftrightarrow> x \<notin> set xs"
  by (induction xs) auto

lemma list_index_Some: "list_index xs x = Some j \<Longrightarrow> j < length xs \<and> xs ! j = x"
  by (induction xs arbitrary: j) (auto split: if_splits)

lemma py_id_inj: "py_id a = py_id b \<Longrightarrow> a = b"
  by (cases a; cases b) auto

lemma positions_Suc:
  "positions G (Suc k) x = positions G k x @ (if py_id (G ! k) = x then [k] else [])"
  by (simp add: positions_def)

lemma set_positions: "set (positions G k x) = {i. i < k \<and> py_id (G ! i) = x}"
  by (auto simp: positions_def)

lemma uniq_inv_step:
  assumes "uniq_inv G k st"
  shows "uniq_inv G (Suc k) (unique_step G st k)"
proof -
  obtain ids idxs maps where st: "st = (ids, idxs, maps)" by (cases st) auto
  from assms st have d: "distinct ids" and s: "set ids = (\<lambda>i. py_id (G ! i)) ` {..<k}"
    and m: "maps = map (positions G k) ids" and h: "idxs = map hd maps"
    by (auto simp: uniq_inv_def)
  let ?x = "py_id (G ! k)"
  have img: "(\<lambda>i. py_id (G ! i)) ` {..<Suc k} = insert ?x (set ids)"
    using s by (auto simp: lessThan_Suc)
  show ?thesis
  proof (cases "list_index ids ?x")
    case None
    then have nin: "?x \<notin> set ids" by (simp add: list_index_None)
    have e: "positions G k ?x = []"
    proof -
      have "\<forall>i<k. py_id (G ! i) \<noteq> ?x"
      proof (intro allI impI notI)
        fix i assume "i < k" and "py_id (G ! i) = ?x"
        then have "?x \<in> (\<lambda>i. py_id (G ! i)) ` {..<k}" by (metis imageI lessThan_iff)
        with nin s show False by simp
      qed
      then show ?thesis by (auto simp: positions_def filter_empty_conv)
    qed
    have "map (positions G (Suc k)) ids = map (positions G k) ids"
      using nin by (auto simp: positions_Suc)
    then show ?thesis
      using None st d nin img m h e by (simp add: uniq_inv_def positions_Suc)
  next
    case (Some j)
    then have j: "j < length ids" and x: "ids ! j = ?x"
      using list_index_Some by fastforce+
    have xin: "?x \<in> set ids" using j x by (metis nth_mem)
    have ne: "positions G k (ids ! j) \<noteq> []"
    proof -
      have "ids ! j \<in> (\<lambda>i. py_id (G ! i)) ` {..<k}" using s j by (metis nth_mem)
      then show ?thesis by (auto simp: positions_def filter_empty_conv)
    qed
    have upd: "maps[j := maps ! j @ [k]] = map (positions G (Suc k)) ids"
    proof (rule nth_equalityI)
      show "length (maps[j := maps ! j @ [k]]) = length (map (positions G (Suc k)) ids)"
        using m by simp
    next
      fix i assume "i < length (maps[j := maps ! j @ [k]])"
      then have i: "i < length ids" using m by simp
      show "maps[j := maps ! j @ [k]] ! i = map (positions G (Suc k)) ids ! i"
      proof (cases "i = j")
        case True
        then show ?thesis using i m x by (simp add: positions_Suc)
      next
        case False
        then have "ids ! i \<noteq> ids ! j" using d i j by (simp add: nth_eq_iff_index_eq)
        then have "ids ! i \<noteq> ?x" using x by simp
        then show ?thesis using False i m by (simp add: positions_Suc)
      qed
    qed
    have hd_eq: "map hd (maps[j := maps ! j @ [k]]) = map hd maps"
    proof (rule nth_equalityI)
      show "length (map hd (maps[j := maps ! j @ [k]])) = length (map hd maps)" by simp
    next
      fix i assume "i < length (map hd (maps[j := maps ! j @ [k]]))"
      then have i: "i < length maps" by simp
      show "map hd (maps[j := maps ! j @ [k]]) ! i = map hd maps ! i"
      proof (cases "i = j")
        case True
        then show ?thesis using i ne m j by simp
      next
        case False
        then show ?thesis using i by simp
      qed
    qed
    show ?thesis
      using Some st d img xin upd h hd_eq
      by (simp add: uniq_inv_def insert_absorb)
  qed
qed

lemma uniq_inv_foldl:
  "uniq_inv G k (foldl (unique_step G) ([], [], []) [0..<k])"
proof (induction k)
  case 0
  show ?case by (simp add: uniq_inv_def)
next
  case (Suc k)
  then show ?case using uniq_inv_step [of G k] by simp
qed

lemma unique_loop_inv: "uniq_inv G (length G) (unique_loop G)"
  unfolding unique_loop_def by (rule uniq_inv_foldl)

lemma unique_loop_mem:
  assumes "unique_loop G = (ids, idxs, maps)" and "j < length ids"
  shows "i \<in> set (maps ! j) \<longleftrightarrow> i < length G \<and> py_id (G ! i) = ids ! j"
proof -
  have "uniq_inv G (length G) (ids, idxs, maps)"
    using unique_loop_inv [of G] assms(1) by simp
  then have "maps = map (positions G (length G)) ids" by (simp add: uniq_inv_def)
  then have "maps ! j = positions G (length G) (ids ! j)" using assms(2) by simp
  then show ?thesis by (simp add: set_positions)
qed

lemma unique_loop_shape:
  assumes "unique_loop G = (ids, idxs, maps)"
  shows "length maps = length ids" and "length idxs = length ids" and "distinct ids"
    and "\<forall>i<length G. \<exists>j<length ids. ids ! j = py_id (G ! i)"
    and "\<forall>j<length ids. idxs ! j \<in> set (maps ! j)"
proof -
  have inv: "uniq_inv G (length G) (ids, idxs, maps)"
    using unique_loop_inv [of G] assms by simp
  have s: "set ids = (\<lambda>i. py_id (G ! i)) ` {..<length G}" using inv by (simp add: uniq_inv_def)
  have m: "maps = map (positions G (length G)) ids" using inv by (simp add: uniq_inv_def)
  have h: "idxs = map hd maps" using inv by (simp add: uniq_inv_def)
  show len: "length maps = length ids" using m by simp
  show "length idxs = length ids" using h len by simp
  show "distinct ids" using inv by (simp add: uniq_inv_def)
  show "\<forall>i<length G. \<exists>j<length ids. ids ! j = py_id (G ! i)"
  proof (intro allI impI)
    fix i assume "i < length G"
    then have "py_id (G ! i) \<in> set ids" using s by (metis imageI lessThan_iff)
    then show "\<exists>j<length ids. ids ! j = py_id (G ! i)" by (simp add: in_set_conv_nth)
  qed
  show "\<forall>j<length ids. idxs ! j \<in> set (maps ! j)"
  proof (intro allI impI)
    fix j assume j: "j < length ids"
    then have "ids ! j \<in> (\<lambda>i. py_id (G ! i)) ` {..<length G}" using s by (metis nth_mem)
    then obtain i where "i < length G" "py_id (G ! i) = ids ! j" by auto
    then have "i \<in> set (maps ! j)" using unique_loop_mem [OF assms j] by blast
    then have "maps ! j \<noteq> []" by auto
    moreover have "idxs ! j = hd (maps ! j)" using h j len by simp
    ultimately show "idxs ! j \<in> set (maps ! j)" by simp
  qed
qed

text \<open>
  The index that the loop computes from the parameters of a method is well formed,
  whatever tensors the attributes hold.
\<close>

lemma unique_loop_wf:
  assumes ul: "unique_loop (map a lay) = (ids, idxs, maps)"
  shows "index_wf lay idxs maps (length lay)"
proof -
  define G where "G = map a lay"
  have ulG: "unique_loop G = (ids, idxs, maps)" using ul G_def by simp
  have n: "length G = length lay" by (simp add: G_def)
  note sh = unique_loop_shape [OF ulG]
  note mem = unique_loop_mem [OF ulG]
  have c0: "length idxs = length maps" using sh(1,2) by simp
  have c1: "\<forall>j<length maps. idxs ! j \<in> set (maps ! j)" using sh(1,5) by simp
  have c2: "\<forall>j<length maps. \<forall>i\<in>set (maps ! j). i < length lay"
  proof (intro allI impI ballI)
    fix j i assume "j < length maps" and i: "i \<in> set (maps ! j)"
    then have "j < length ids" using sh(1) by simp
    from mem [OF this, of i] i show "i < length lay" using n by simp
  qed
  have c3: "\<forall>i<length lay. \<exists>j<length maps. i \<in> set (maps ! j)"
  proof (intro allI impI)
    fix i assume i: "i < length lay"
    then obtain j where j: "j < length ids" "ids ! j = py_id (G ! i)" using sh(4) n by auto
    from mem [OF j(1), of i] have "i \<in> set (maps ! j)" using i n j(2) by simp
    then show "\<exists>j<length maps. i \<in> set (maps ! j)" using j(1) sh(1) by auto
  qed
  have c4: "\<forall>j<length maps. \<forall>j'<length maps. j \<noteq> j' \<longrightarrow> set (maps ! j) \<inter> set (maps ! j') = {}"
  proof (intro allI impI)
    fix j j' assume j: "j < length maps" and j': "j' < length maps" and neq: "j \<noteq> j'"
    have lj: "j < length ids" and lj': "j' < length ids" using j j' sh(1) by simp_all
    have dj: "ids ! j \<noteq> ids ! j'" using sh(3) lj lj' neq by (simp add: nth_eq_iff_index_eq)
    show "set (maps ! j) \<inter> set (maps ! j') = {}"
    proof (rule ccontr)
      assume "set (maps ! j) \<inter> set (maps ! j') \<noteq> {}"
      then obtain i where i: "i \<in> set (maps ! j)" "i \<in> set (maps ! j')" by auto
      have "py_id (G ! i) = ids ! j" using mem [OF lj, of i] i(1) by blast
      moreover have "py_id (G ! i) = ids ! j'" using mem [OF lj', of i] i(2) by blast
      ultimately show False using dj by metis
    qed
  qed
  have c5: "\<forall>j<length maps. \<forall>k<length lay. \<forall>k'<length lay.
      lay ! k = lay ! k' \<longrightarrow> k \<in> set (maps ! j) \<longrightarrow> k' \<in> set (maps ! j)"
  proof (intro allI impI)
    fix j k k' assume j: "j < length maps" and k: "k < length lay" and k': "k' < length lay"
      and e: "lay ! k = lay ! k'" and kin: "k \<in> set (maps ! j)"
    have lj: "j < length ids" using j sh(1) by simp
    have "G ! k = G ! k'" using k k' e by (simp add: G_def)
    moreover have "py_id (G ! k) = ids ! j" using mem [OF lj, of k] kin by blast
    ultimately have "py_id (G ! k') = ids ! j" by metis
    then show "k' \<in> set (maps ! j)" using mem [OF lj, of k'] k' n by simp
  qed
  show ?thesis
    unfolding index_wf_def
    by (intro conjI) (rule refl, rule c0, rule c1, rule c2, rule c3, rule c4, rule c5)
qed

text \<open>
  A group of the index computed from \<open>G\<close> is a class of identical objects of \<open>G\<close>.
\<close>

lemma unique_loop_groups:
  assumes "unique_loop G = (ids, idxs, maps)" and "j < length maps" and "i \<in> set (maps ! j)"
    and "i' < length G"
  shows "i' \<in> set (maps ! j) \<longleftrightarrow> G ! i' = G ! i"
proof -
  have lj: "j < length ids" using unique_loop_shape(1) [OF assms(1)] assms(2) by simp
  have a: "py_id (G ! i) = ids ! j" using unique_loop_mem [OF assms(1) lj, of i] assms(3) by blast
  have b: "i' \<in> set (maps ! j) \<longleftrightarrow> py_id (G ! i') = ids ! j"
    using unique_loop_mem [OF assms(1) lj, of i'] assms(4) by blast
  show ?thesis
  proof
    assume "i' \<in> set (maps ! j)"
    then have "py_id (G ! i') = py_id (G ! i)" using a b by simp
    then show "G ! i' = G ! i" by (rule py_id_inj)
  next
    assume "G ! i' = G ! i"
    then show "i' \<in> set (maps ! j)" using a b by simp
  qed
qed

lemma index_wf_idxs_bound:
  assumes "index_wf lay idxs maps n"
  shows "\<forall>i\<in>set idxs. i < n"
proof
  fix i assume "i \<in> set idxs"
  then obtain j where j: "j < length idxs" "idxs ! j = i" by (auto simp: in_set_conv_nth)
  have l: "length idxs = length maps" using assms unfolding index_wf_def by blast
  have "\<forall>j<length maps. idxs ! j \<in> set (maps ! j)" using assms unfolding index_wf_def by blast
  then have "i \<in> set (maps ! j)" using j l by auto
  moreover have "\<forall>j<length maps. \<forall>i\<in>set (maps ! j). i < n"
    using assms unfolding index_wf_def by blast
  ultimately show "i < n" using j(1) l by auto
qed

lemma index_wf_length: "index_wf lay idxs maps n \<Longrightarrow> n = length lay"
  unfolding index_wf_def by blast

lemma length_getparams [simp]: "length (getparams L s m) = length (L m)"
  by (simp add: getparams_def)

lemma pick_ok: "\<forall>i\<in>set js. i < length xs \<Longrightarrow> pick xs js = Inr (map ((!) xs) js)"
  by (induction js) (auto simp: py_get_def)

lemma cache_entry_attrs [simp]: "cache_entry (s\<lparr>attrs := a\<rparr>) m = cache_entry s m"
  by (simp add: cache_entry_def split: option.splits)

lemma get_unique_params_idxs_absent:
  assumes "cache_entry s m = Some None"
    and "unique_loop G = (ids, idxs, maps)"
  shows "\<exists>s1. get_unique_params_idxs s m G = Inr (idxs, s1) \<and>
           attrs s1 = attrs s \<and>
           cache_entry s1 m = Some (Some (idxs, maps, length G))"
proof (cases "unique_params_idxs s")
  case None
  then show ?thesis using assms(2)
    by (simp add: get_unique_params_idxs_def cache_entry_def)
next
  case (Some I)
  then obtain M N where "unique_params_maps s = Some M" "number_of_params s = Some N" "I m = None"
    using assms(1) by (auto simp: cache_entry_def split: option.splits)
  then show ?thesis using Some assms(2)
    by (simp add: get_unique_params_idxs_def cache_entry_def)
qed

lemma getuniqueparams_absent:
  assumes ce: "cache_entry s m = Some None"
    and ul: "unique_loop (getparams L s m) = (ids, idxs, maps)"
  shows "\<exists>s1. getuniqueparams L s m = Inr (map ((!) (getparams L s m)) idxs, s1) \<and>
           attrs s1 = attrs s \<and>
           cache_entry s1 m = Some (Some (idxs, maps, length (L m)))"
proof -
  define G where "G = getparams L s m"
  have ulG: "unique_loop G = (ids, idxs, maps)" using ul G_def by simp
  have "unique_loop (map (attrs s) (L m)) = (ids, idxs, maps)"
    using ul by (simp add: getparams_def)
  then have wf: "index_wf (L m) idxs maps (length (L m))" by (rule unique_loop_wf)
  have "\<forall>i\<in>set idxs. i < length G"
    using index_wf_idxs_bound [OF wf] by (simp add: G_def)
  then have p: "pick G idxs = Inr (map ((!) G) idxs)" by (rule pick_ok)
  from get_unique_params_idxs_absent [OF ce ulG] obtain s1 where
    s1: "get_unique_params_idxs s m G = Inr (idxs, s1)" "attrs s1 = attrs s"
        "cache_entry s1 m = Some (Some (idxs, maps, length G))"
    by blast
  have "getuniqueparams L s m = Inr (map ((!) G) idxs, s1)"
    using s1(1) p by (simp add: getuniqueparams_def G_def [symmetric])
  moreover have "length G = length (L m)" by (simp add: G_def)
  ultimately show ?thesis using s1(2,3) G_def by auto
qed

lemma getuniqueparams_present:
  assumes "cache_entry s m = Some (Some (idxs, maps, n))"
    and "index_wf (L m) idxs maps n"
  shows "getuniqueparams L s m = Inr (map ((!) (getparams L s m)) idxs, s)"
proof -
  define G where "G = getparams L s m"
  have "n = length G" using index_wf_length [OF assms(2)] by (simp add: G_def)
  then have "\<forall>i\<in>set idxs. i < length G"
    using index_wf_idxs_bound [OF assms(2)] by simp
  then have p: "pick G idxs = Inr (map ((!) G) idxs)" by (rule pick_ok)
  obtain I M N where "unique_params_idxs s = Some I" "unique_params_maps s = Some M"
      "number_of_params s = Some N" "I m = Some idxs"
    using assms(1) by (auto simp: cache_entry_def split: option.splits)
  then have "get_unique_params_idxs s m G = Inr (idxs, s)"
    by (simp add: get_unique_params_idxs_def)
  then show ?thesis using p by (simp add: getuniqueparams_def G_def [symmetric])
qed

lemma getuniqueparams_wf:
  assumes "cache_wf L s m"
  shows "\<exists>idxs maps n s1. getuniqueparams L s m = Inr (map ((!) (getparams L s m)) idxs, s1) \<and>
           attrs s1 = attrs s \<and>
           cache_entry s1 m = Some (Some (idxs, maps, n)) \<and>
           index_wf (L m) idxs maps n \<and>
           (cache_entry s m = Some None \<longrightarrow>
              (\<exists>ids. unique_loop (getparams L s m) = (ids, idxs, maps))) \<and>
           (cache_entry s m \<noteq> Some None \<longrightarrow> s1 = s)"
proof (cases "cache_entry s m = Some None")
  case True
  obtain ids idxs maps where ul: "unique_loop (getparams L s m) = (ids, idxs, maps)"
    by (cases "unique_loop (getparams L s m)") auto
  then have "unique_loop (map (attrs s) (L m)) = (ids, idxs, maps)" by (simp add: getparams_def)
  then have wf: "index_wf (L m) idxs maps (length (L m))" by (rule unique_loop_wf)
  from getuniqueparams_absent [OF True ul] wf ul True show ?thesis by blast
next
  case False
  then obtain idxs maps n where ce: "cache_entry s m = Some (Some (idxs, maps, n))"
      and wf: "index_wf (L m) idxs maps n"
    using assms by (auto simp: cache_wf_def split: option.splits)
  from getuniqueparams_present [where L = L, OF ce wf] ce wf False show ?thesis by blast
qed

section \<open>Setting the unique parameters\<close>

lemma fill_group_ok:
  "\<forall>i\<in>set g. i < length A \<Longrightarrow>
   \<exists>A'. fill_group A g p = Inr A' \<and> length A' = length A \<and>
        (\<forall>i<length A. A' ! i = (if i \<in> set g then p else A ! i))"
proof (induction g arbitrary: A)
  case Nil
  then show ?case by simp
next
  case (Cons a g)
  from Cons.prems have a: "a < length A" and g: "\<forall>i\<in>set g. i < length (A[a := p])" by auto
  from Cons.IH [OF g] obtain A' where
    A': "fill_group (A[a := p]) g p = Inr A'" "length A' = length A"
        "\<forall>i<length A. A' ! i = (if i \<in> set g then p else A[a := p] ! i)"
    by auto
  have "fill_group A (a # g) p = Inr A'" using a A'(1) by (simp add: py_set_def)
  moreover have "\<forall>i<length A. A' ! i = (if i \<in> set (a # g) then p else A ! i)"
    using A'(3) a by (auto simp: nth_list_update)
  ultimately show ?case using A'(2) by blast
qed

lemma fill_from_ok:
  assumes "j + length us \<le> length maps"
    and "\<forall>j'<length maps. \<forall>i\<in>set (maps ! j'). i < length A"
    and "\<forall>j1<length maps. \<forall>j2<length maps. j1 \<noteq> j2 \<longrightarrow> set (maps ! j1) \<inter> set (maps ! j2) = {}"
  shows "\<exists>A'. fill_from maps us j A = Inr A' \<and> length A' = length A \<and>
        (\<forall>i<length A. \<forall>j'. j \<le> j' \<longrightarrow> j' < j + length us \<longrightarrow> i \<in> set (maps ! j') \<longrightarrow> A' ! i = us ! (j' - j)) \<and>
        (\<forall>i<length A. (\<forall>j'. j \<le> j' \<longrightarrow> j' < j + length us \<longrightarrow> i \<notin> set (maps ! j')) \<longrightarrow> A' ! i = A ! i)"
  using assms
proof (induction us arbitrary: j A)
  case Nil
  then show ?case by simp
next
  case (Cons p us)
  from Cons.prems(1) have j: "j < length maps" and j': "Suc j + length us \<le> length maps" by auto
  have g: "\<forall>i\<in>set (maps ! j). i < length A" using Cons.prems(2) j by blast
  from fill_group_ok [OF g, of p] obtain A1 where
    A1: "fill_group A (maps ! j) p = Inr A1" "length A1 = length A"
        "\<forall>i<length A. A1 ! i = (if i \<in> set (maps ! j) then p else A ! i)"
    by auto
  have b: "\<forall>j'<length maps. \<forall>i\<in>set (maps ! j'). i < length A1"
    using Cons.prems(2) A1(2) by simp
  from Cons.IH [OF j' b Cons.prems(3)] obtain A' where
    A': "fill_from maps us (Suc j) A1 = Inr A'" "length A' = length A1"
        "\<forall>i<length A1. \<forall>j'. Suc j \<le> j' \<longrightarrow> j' < Suc j + length us \<longrightarrow> i \<in> set (maps ! j') \<longrightarrow> A' ! i = us ! (j' - Suc j)"
        "\<forall>i<length A1. (\<forall>j'. Suc j \<le> j' \<longrightarrow> j' < Suc j + length us \<longrightarrow> i \<notin> set (maps ! j')) \<longrightarrow> A' ! i = A1 ! i"
    by auto
  have run: "fill_from maps (p # us) j A = Inr A'"
    using j A1(1) A'(1) by (simp add: py_get_def)
  have len: "length A' = length A" using A'(2) A1(2) by simp
  have hit: "\<forall>i<length A. \<forall>j'. j \<le> j' \<longrightarrow> j' < j + length (p # us) \<longrightarrow> i \<in> set (maps ! j') \<longrightarrow> A' ! i = (p # us) ! (j' - j)"
  proof (intro allI impI)
    fix i j' assume i: "i < length A" and lo: "j \<le> j'" and hi: "j' < j + length (p # us)"
      and mem: "i \<in> set (maps ! j')"
    show "A' ! i = (p # us) ! (j' - j)"
    proof (cases "j' = j")
      case True
      have "\<forall>j''. Suc j \<le> j'' \<longrightarrow> j'' < Suc j + length us \<longrightarrow> i \<notin> set (maps ! j'')"
      proof (intro allI impI)
        fix j'' assume "Suc j \<le> j''" and "j'' < Suc j + length us"
        then have "j'' < length maps" "j \<noteq> j''" using j' by auto
        then have "set (maps ! j) \<inter> set (maps ! j'') = {}" using Cons.prems(3) j by blast
        then show "i \<notin> set (maps ! j'')" using mem True by auto
      qed
      then have "A' ! i = A1 ! i" using A'(4) i A1(2) by simp
      then show ?thesis using A1(3) i mem True by simp
    next
      case False
      then have "Suc j \<le> j'" "j' < Suc j + length us" using lo hi by auto
      then have "A' ! i = us ! (j' - Suc j)" using A'(3) i A1(2) mem by simp
      moreover have "(p # us) ! (j' - j) = us ! (j' - Suc j)"
        using False lo by (simp add: nth_Cons')
      ultimately show ?thesis by simp
    qed
  qed
  have miss: "\<forall>i<length A. (\<forall>j'. j \<le> j' \<longrightarrow> j' < j + length (p # us) \<longrightarrow> i \<notin> set (maps ! j')) \<longrightarrow> A' ! i = A ! i"
  proof (intro allI impI)
    fix i assume i: "i < length A"
      and no: "\<forall>j'. j \<le> j' \<longrightarrow> j' < j + length (p # us) \<longrightarrow> i \<notin> set (maps ! j')"
    have "i \<notin> set (maps ! j)" using no by simp
    moreover have "\<forall>j'. Suc j \<le> j' \<longrightarrow> j' < Suc j + length us \<longrightarrow> i \<notin> set (maps ! j')"
      using no by simp
    ultimately show "A' ! i = A ! i" using A'(4) A1(2,3) i by simp
  qed
  show ?case using run len hit miss by blast
qed

lemma fold_assign_notin: "x \<notin> fst ` set zs \<Longrightarrow> fold assign zs f x = f x"
  by (induction zs arbitrary: f) (auto simp: assign_def)

lemma fold_assign_const:
  "x \<in> fst ` set zs \<Longrightarrow> \<forall>z\<in>set zs. fst z = x \<longrightarrow> snd z = v \<Longrightarrow> fold assign zs f x = v"
proof (induction zs arbitrary: f)
  case Nil
  then show ?case by simp
next
  case (Cons z zs)
  show ?case
  proof (cases "x \<in> fst ` set zs")
    case True
    then show ?thesis using Cons.IH [of "assign z f"] Cons.prems(2) by simp
  next
    case False
    then have "fst z = x" using Cons.prems(1) by auto
    then have "assign z f x = v" using Cons.prems(2) by (simp add: assign_def)
    moreover have "fold assign zs (assign z f) x = assign z f x"
      using False by (rule fold_assign_notin)
    ultimately show ?thesis by simp
  qed
qed

lemma fold_assign_same: "\<forall>z\<in>set zs. snd z = f (fst z) \<Longrightarrow> fold assign zs f = f"
proof (induction zs)
  case Nil
  then show ?case by simp
next
  case (Cons z zs)
  then have "assign z f = f" by (auto simp: assign_def)
  then show ?case using Cons by simp
qed

lemma zip_map_same: "\<forall>z\<in>set (zip xs (map f xs)). snd z = f (fst z)"
  by (auto simp: in_set_zip)

lemma expand_unique_ok:
  assumes "cache_entry s m = Some (Some (idxs, maps, n))"
    and "index_wf lay idxs maps n"
    and "length us \<le> length maps"
  shows "\<exists>A. expand_unique s m us = Inr A \<and> length A = n \<and>
           (\<forall>j<length us. \<forall>i\<in>set (maps ! j). A ! i = us ! j)"
proof -
  let ?Z = "replicate n PyNone"
  obtain M N where c: "unique_params_maps s = Some M" "number_of_params s = Some N"
      "M m = Some maps" "N m = Some n"
    using assms(1) by (auto simp: cache_entry_def split: option.splits)
  have a: "0 + length us \<le> length maps" using assms(3) by simp
  have b0: "\<forall>j'<length maps. \<forall>i\<in>set (maps ! j'). i < n"
    using assms(2) unfolding index_wf_def by blast
  have b: "\<forall>j'<length maps. \<forall>i\<in>set (maps ! j'). i < length ?Z"
    using b0 by simp
  have d: "\<forall>j1<length maps. \<forall>j2<length maps. j1 \<noteq> j2 \<longrightarrow> set (maps ! j1) \<inter> set (maps ! j2) = {}"
    using assms(2) unfolding index_wf_def by blast
  from fill_from_ok [OF a b d] obtain A where
    A: "fill_from maps us 0 ?Z = Inr A" "length A = length ?Z"
       "\<forall>i<length ?Z. \<forall>j'. 0 \<le> j' \<longrightarrow> j' < 0 + length us \<longrightarrow> i \<in> set (maps ! j') \<longrightarrow> A ! i = us ! (j' - 0)"
    by blast
  have run: "expand_unique s m us = Inr A" using A(1) c by (simp add: expand_unique_def)
  have "\<forall>j<length us. \<forall>i\<in>set (maps ! j). A ! i = us ! j"
  proof (intro allI impI ballI)
    fix j i assume j: "j < length us" and i: "i \<in> set (maps ! j)"
    have "j < length maps" using j assms(3) by simp
    then have "i < length ?Z" using b i by blast
    moreover have "0 \<le> j" "j < 0 + length us" using j by simp_all
    ultimately have "A ! i = us ! (j - 0)" using A(3) i by blast
    then show "A ! i = us ! j" by simp
  qed
  moreover have "length A = n" using A(2) by simp
  ultimately show ?thesis using run by blast
qed

lemma setuniqueparams_cache:
  assumes "setuniqueparams L s m us = Inr (k, s')"
  shows "cache_entry s' m' = cache_entry s m'"
proof -
  from assms obtain A where "setparams L s m A = Inr (k, s')"
    by (auto simp: setuniqueparams_def split: sum.splits)
  then have "s' = s\<lparr>attrs := fold assign (zip (L m) A) (attrs s)\<rparr>"
    by (auto simp: setparams_def split: if_splits)
  then show ?thesis by simp
qed

text \<open>
  With a well-formed index, \<^verbatim>\<open>setuniqueparams\<close> given one tensor for every group succeeds,
  and \<^verbatim>\<open>getuniqueparams\<close> then reads these tensors back, whatever the attributes held
  before.
\<close>

lemma setuniqueparams_restores:
  assumes ce: "cache_entry s m = Some (Some (idxs, maps, n))"
    and wf: "index_wf (L m) idxs maps n"
    and len: "length us = length idxs"
  shows "\<exists>k s'. setuniqueparams L s m us = Inr (k, s') \<and>
           cache_entry s' m = Some (Some (idxs, maps, n)) \<and>
           map ((!) (getparams L s' m)) idxs = us"
proof -
  let ?lay = "L m"
  have n: "n = length ?lay" using wf by (rule index_wf_length)
  have lm: "length idxs = length maps" using wf unfolding index_wf_def by blast
  have inj: "\<forall>j<length maps. idxs ! j \<in> set (maps ! j)" using wf unfolding index_wf_def by blast
  have same: "\<forall>j<length maps. \<forall>k<n. \<forall>k'<n.
      ?lay ! k = ?lay ! k' \<longrightarrow> k \<in> set (maps ! j) \<longrightarrow> k' \<in> set (maps ! j)"
    using wf unfolding index_wf_def by blast
  have "length us \<le> length maps" using len lm by simp
  from expand_unique_ok [OF ce wf this] obtain A where
    A: "expand_unique s m us = Inr A" "length A = n"
       "\<forall>j<length us. \<forall>i\<in>set (maps ! j). A ! i = us ! j"
    by blast
  define a' where "a' = fold assign (zip ?lay A) (attrs s)"
  define s' where "s' = s\<lparr>attrs := a'\<rparr>"
  have run: "setuniqueparams L s m us = Inr (n, s')"
    using A(1,2) n by (simp add: setuniqueparams_def setparams_def s'_def a'_def)
  have ce': "cache_entry s' m = Some (Some (idxs, maps, n))"
    using ce by (simp add: s'_def)
  have val: "getparams L s' m ! (idxs ! j) = us ! j" if j: "j < length idxs" for j
  proof -
    let ?k = "idxs ! j"
    have jm: "j < length maps" using j lm by simp
    have kin: "?k \<in> set (maps ! j)" using inj jm by blast
    have kn: "?k < n" using index_wf_idxs_bound [OF wf] j by simp
    have "(?lay ! ?k, A ! ?k) \<in> set (zip ?lay A)"
      using kn n A(2) by (auto simp: in_set_zip)
    then have x: "?lay ! ?k \<in> fst ` set (zip ?lay A)" by force
    have all: "\<forall>z\<in>set (zip ?lay A). fst z = ?lay ! ?k \<longrightarrow> snd z = us ! j"
    proof (intro ballI impI)
      fix z assume z: "z \<in> set (zip ?lay A)" and e: "fst z = ?lay ! ?k"
      from z obtain k' where k': "?lay ! k' = fst z" "A ! k' = snd z" "k' < length ?lay"
        by (auto simp: in_set_zip)
      have "?lay ! ?k = ?lay ! k'" using k'(1) e by simp
      then have "k' \<in> set (maps ! j)" using same jm kn k'(3) n kin by blast
      then have "A ! k' = us ! j" using A(3) j len by simp
      then show "snd z = us ! j" using k'(2) by simp
    qed
    have "a' (?lay ! ?k) = us ! j"
      unfolding a'_def using x all by (rule fold_assign_const)
    then show ?thesis using kn n by (simp add: getparams_def s'_def)
  qed
  have "map ((!) (getparams L s' m)) idxs = us"
  proof (rule nth_equalityI)
    show "length (map ((!) (getparams L s' m)) idxs) = length us" using len by simp
  next
    fix j assume "j < length (map ((!) (getparams L s' m)) idxs)"
    then have "j < length idxs" by simp
    then show "map ((!) (getparams L s' m)) idxs ! j = us ! j" using val by simp
  qed
  then show ?thesis using run ce' by blast
qed

lemma restore_ok:
  assumes ce: "cache_entry s m = Some (Some (idxs, maps, n))"
    and wf: "index_wf (L m) idxs maps n"
    and len: "length us = length idxs"
  shows "\<exists>s'. restore L s m us c = (s', c) \<and>
           cache_entry s' m = Some (Some (idxs, maps, n)) \<and>
           getuniqueparams L s' m = Inr (us, s')"
proof -
  from setuniqueparams_restores [where L = L, OF ce wf len] obtain k s' where
    s': "setuniqueparams L s m us = Inr (k, s')"
        "cache_entry s' m = Some (Some (idxs, maps, n))"
        "map ((!) (getparams L s' m)) idxs = us"
    by blast
  have "restore L s m us c = (s', c)" using s'(1) by (simp add: restore_def)
  moreover have "getuniqueparams L s' m = Inr (us, s')"
    using getuniqueparams_present [where L = L, OF s'(2) wf] s'(3) by simp
  ultimately show ?thesis using s'(2) by blast
qed

lemma useparams_exit:
  assumes ce: "cache_entry s1 m = Some (Some (idxs, maps, n))"
    and wf: "index_wf (L m) idxs maps n"
    and g: "getuniqueparams L s1 m = Inr (U, s1)"
    and len: "length U = length idxs"
  shows "\<exists>s3 tr c. useparams L s1 m ps blk = (s3, tr, c) \<and> getuniqueparams L s3 m = Inr (U, s3)"
proof (cases "setuniqueparams L s1 m ps")
  case (Inl e)
  from restore_ok [where L = L, OF ce wf len, of "Raised (RuntimeError ''generator didn't yield'')"]
  obtain s' where "restore L s1 m U (Raised (RuntimeError ''generator didn't yield'')) =
      (s', Raised (RuntimeError ''generator didn't yield''))" "getuniqueparams L s' m = Inr (U, s')"
    by blast
  then show ?thesis using g Inl by (simp add: useparams_def useparams_enter_def)
next
  case (Inr r)
  obtain k s2 where r: "r = (k, s2)" by (cases r) auto
  have ce2: "cache_entry s2 m = Some (Some (idxs, maps, n))"
    using setuniqueparams_cache [of L s1 m ps k s2 m] Inr r ce by simp
  obtain a3 c where b: "blk (attrs s2) = (a3, c)" by (cases "blk (attrs s2)") auto
  have ce3: "cache_entry (s2\<lparr>attrs := a3\<rparr>) m = Some (Some (idxs, maps, n))"
    using ce2 by simp
  have ex: "\<exists>s'. restore L (s2\<lparr>attrs := a3\<rparr>) m U c' = (s', c') \<and> getuniqueparams L s' m = Inr (U, s')"
    for c'
    using restore_ok [where L = L, OF ce3 wf len, of c'] by blast
  show ?thesis
  proof (cases c)
    case Completed
    from ex [of Completed] obtain s' where
      "restore L (s2\<lparr>attrs := a3\<rparr>) m U Completed = (s', Completed)"
      "getuniqueparams L s' m = Inr (U, s')" by blast
    then show ?thesis using g Inr r b Completed by (simp add: useparams_def useparams_enter_def)
  next
    case (Raised e)
    from ex [of Completed] obtain s' where
      "restore L (s2\<lparr>attrs := a3\<rparr>) m U Completed = (s', Completed)"
      "getuniqueparams L s' m = Inr (U, s')" by blast
    then show ?thesis using g Inr r b Raised by (simp add: useparams_def useparams_enter_def)
  next
    case (Aborted sg)
    from ex [of "Aborted sg"] obtain s' where
      "restore L (s2\<lparr>attrs := a3\<rparr>) m U (Aborted sg) = (s', Aborted sg)"
      "getuniqueparams L s' m = Inr (U, s')" by blast
    then show ?thesis using g Inr r b Aborted by (simp add: useparams_def useparams_enter_def)
  qed
qed

text \<open>
  Claim C6, as amended. \<^verbatim>\<open>obj.setuniqueparams(m, *obj.getuniqueparams(m))\<close> leaves every
  position of \<^verbatim>\<open>getparams(m)\<close> holding the identical tensor it held before, provided that
  every alias group of the index cached for \<open>m\<close>, if one is cached, still holds one tensor
  at all its positions. This is so when the index is computed by this very call, and as
  long as the identity pattern of the parameters has not become finer since it was
  computed.
\<close>

theorem roundtrip_keeps_params:
  assumes cw: "cache_wf L s m" and gh: "groups_hold_one L s m"
  shows "roundtrip L s m = Inr (getparams L s m)"
proof -
  define G where "G = getparams L s m"
  from getuniqueparams_wf [OF cw] obtain idxs maps n s1 where
    g: "getuniqueparams L s m = Inr (map ((!) G) idxs, s1)"
    and a: "attrs s1 = attrs s"
    and ce: "cache_entry s1 m = Some (Some (idxs, maps, n))"
    and wf: "index_wf (L m) idxs maps n"
    and ab: "cache_entry s m = Some None \<longrightarrow> (\<exists>ids. unique_loop G = (ids, idxs, maps))"
    and pr: "cache_entry s m \<noteq> Some None \<longrightarrow> s1 = s"
    unfolding G_def by blast
  let ?U = "map ((!) G) idxs"
  have n: "n = length (L m)" using wf by (rule index_wf_length)
  have lG: "length G = n" using n by (simp add: G_def)
  have lm: "length idxs = length maps" using wf unfolding index_wf_def by blast
  have inj: "\<forall>j<length maps. idxs ! j \<in> set (maps ! j)" using wf unfolding index_wf_def by blast
  have bound: "\<forall>j<length maps. \<forall>i\<in>set (maps ! j). i < n" using wf unfolding index_wf_def by blast
  have cover: "\<forall>i<n. \<exists>j<length maps. i \<in> set (maps ! j)" using wf unfolding index_wf_def by blast
  have homog: "G ! i = G ! i'" if j: "j < length maps" and i: "i \<in> set (maps ! j)"
    and i': "i' \<in> set (maps ! j)" for j i i'
  proof (cases "cache_entry s m = Some None")
    case True
    then obtain ids where ul: "unique_loop G = (ids, idxs, maps)" using ab by blast
    have "i' < length G" using bound j i' lG by auto
    from unique_loop_groups [OF ul j i this] i' show ?thesis by simp
  next
    case False
    then have "s1 = s" using pr by simp
    then have ce0: "cache_entry s m = Some (Some (idxs, maps, n))" using ce by simp
    have "\<forall>g\<in>set maps. \<forall>i\<in>set g. \<forall>i'\<in>set g. G ! i = G ! i'"
      using gh unfolding groups_hold_one_def ce0 G_def by (simp only: option.case prod.case)
    moreover have "maps ! j \<in> set maps" using j by simp
    ultimately show ?thesis using i i' by blast
  qed
  have "length ?U \<le> length maps" using lm by simp
  from expand_unique_ok [OF ce wf this] obtain A where
    A: "expand_unique s1 m ?U = Inr A" "length A = n"
       "\<forall>j<length ?U. \<forall>i\<in>set (maps ! j). A ! i = ?U ! j"
    by blast
  have "A = G"
  proof (rule nth_equalityI)
    show "length A = length G" using A(2) lG by simp
  next
    fix i assume "i < length A"
    then have "i < n" using A(2) by simp
    then obtain j where j: "j < length maps" "i \<in> set (maps ! j)" using cover by blast
    then have "A ! i = ?U ! j" using A(3) lm by simp
    also have "\<dots> = G ! (idxs ! j)" using j(1) lm by simp
    also have "\<dots> = G ! i" using homog [OF j(1) _ j(2)] inj j(1) by blast
    finally show "A ! i = G ! i" .
  qed
  then have eA: "expand_unique s1 m ?U = Inr G" using A(1) by simp
  have G1: "G = map (attrs s1) (L m)" using a by (simp add: G_def getparams_def)
  have "fold assign (zip (L m) G) (attrs s1) = attrs s1"
    unfolding G1 using zip_map_same by (rule fold_assign_same)
  then have "setuniqueparams L s1 m ?U = Inr (length (L m), s1)"
    using eA lG n by (simp add: setuniqueparams_def setparams_def)
  moreover have "getparams L s1 m = G" using G1 by (simp add: getparams_def)
  ultimately show ?thesis using g by (simp add: roundtrip_def G_def)
qed

text \<open>
  Claim C6 as stated fails on an object whose index was computed while \<^verbatim>\<open>A\<close> and \<^verbatim>\<open>B\<close>
  held the identical tensor and whose parameters were then set to two different tensors
  with \<^verbatim>\<open>setparams\<close>: the cached index has one group for both positions, and the round
  trip writes the tensor of position 0 to position 1.
\<close>

theorem roundtrip_changes_split_obj:
  "getparams layout_AB split_obj ''forward'' = [Tensor 1, Tensor 2] \<and>
   roundtrip layout_AB split_obj ''forward'' = Inr [Tensor 1, Tensor 1]"
  by code_simp

text \<open>
  The theorem of C6 at a new object whose two attributes hold the identical tensor.
\<close>

theorem roundtrip_keeps_params_witness:
  "cache_wf layout_AB (obj_AB (Tensor 1) (Tensor 1)) ''forward'' \<and>
   groups_hold_one layout_AB (obj_AB (Tensor 1) (Tensor 1)) ''forward'' \<and>
   roundtrip layout_AB (obj_AB (Tensor 1) (Tensor 1)) ''forward'' = Inr [Tensor 1, Tensor 1]"
proof -
  have w: "cache_wf layout_AB (obj_AB (Tensor 1) (Tensor 1)) ''forward''"
    by (simp add: cache_wf_def cache_entry_def obj_AB_def)
  have h: "groups_hold_one layout_AB (obj_AB (Tensor 1) (Tensor 1)) ''forward''"
    by (simp add: groups_hold_one_def cache_entry_def obj_AB_def)
  have "getparams layout_AB (obj_AB (Tensor 1) (Tensor 1)) ''forward'' = [Tensor 1, Tensor 1]"
    by (simp add: getparams_def layout_AB_def obj_AB_def)
  with roundtrip_keeps_params [OF w h] w h show ?thesis by simp
qed

lemma cache_wf_getuniqueparams:
  assumes "cache_wf L s m" and "getuniqueparams L s m = Inr (U, s1)"
  shows "cache_wf L s1 m \<and> attrs s1 = attrs s"
proof -
  from getuniqueparams_wf [OF assms(1)] obtain idxs maps n s1' where
    "getuniqueparams L s m = Inr (map ((!) (getparams L s m)) idxs, s1')"
    "attrs s1' = attrs s"
    "cache_entry s1' m = Some (Some (idxs, maps, n))" "index_wf (L m) idxs maps n"
    by blast
  then show ?thesis using assms(2) by (simp add: cache_wf_def)
qed

lemma cache_wf_setparams:
  assumes "cache_wf L s m" and "setparams L s m' ps = Inr (k, s')"
  shows "cache_wf L s' m"
proof -
  from assms(2) have "s' = s\<lparr>attrs := fold assign (zip (L m') ps) (attrs s)\<rparr>"
    by (auto simp: setparams_def split: if_splits)
  then show ?thesis using assms(1) by (simp add: cache_wf_def)
qed

text \<open>
  Claim C7, as amended. Let the registry of the object be one the code can have produced,
  and let the identity pattern of the parameters not have become coarser since the index
  for \<open>m\<close> was computed: positions that hold the identical tensor are in one alias
  group (this is so when the index is computed by the call of \<^verbatim>\<open>getuniqueparams\<close>
  itself). If \<^verbatim>\<open>getparams(m)\<close> holds the identical tensor at the positions \<open>i\<close> and
  \<open>j\<close>, then once \<^verbatim>\<open>getuniqueparams(m)\<close> has run both positions are in one group \<open>g\<close>
  of the index, and \<^verbatim>\<open>setuniqueparams(m, *us)\<close> with a tensor supplied for \<open>g\<close> has that
  tensor at the positions \<open>i\<close> and \<open>j\<close> of the list it hands to \<^verbatim>\<open>setparams\<close>.
\<close>

theorem setuniqueparams_fills_alias_group:
  assumes cw: "cache_wf L s m" and ag: "aliases_grouped L s m"
    and i: "i < length (L m)" and j: "j < length (L m)"
    and same: "getparams L s m ! i = getparams L s m ! j"
  shows "\<exists>U s1 idxs maps n g. getuniqueparams L s m = Inr (U, s1) \<and>
           cache_entry s1 m = Some (Some (idxs, maps, n)) \<and> length U = length maps \<and>
           g < length maps \<and> i \<in> set (maps ! g) \<and> j \<in> set (maps ! g) \<and>
           (\<forall>us. g < length us \<longrightarrow> length us \<le> length U \<longrightarrow>
              (\<exists>A. expand_unique s1 m us = Inr A \<and> A ! i = us ! g \<and> A ! j = us ! g))"
proof -
  define G where "G = getparams L s m"
  from getuniqueparams_wf [OF cw] obtain idxs maps n s1 where
    g: "getuniqueparams L s m = Inr (map ((!) G) idxs, s1)"
    and ce: "cache_entry s1 m = Some (Some (idxs, maps, n))"
    and wf: "index_wf (L m) idxs maps n"
    and ab: "cache_entry s m = Some None \<longrightarrow> (\<exists>ids. unique_loop G = (ids, idxs, maps))"
    and pr: "cache_entry s m \<noteq> Some None \<longrightarrow> s1 = s"
    unfolding G_def by blast
  have n: "n = length (L m)" using wf by (rule index_wf_length)
  have lG: "length G = n" using n by (simp add: G_def)
  have lm: "length idxs = length maps" using wf unfolding index_wf_def by blast
  have cover: "\<forall>i<n. \<exists>j<length maps. i \<in> set (maps ! j)" using wf unfolding index_wf_def by blast
  from cover i n obtain gi where gi: "gi < length maps" "i \<in> set (maps ! gi)" by blast
  have jin: "j \<in> set (maps ! gi)"
  proof (cases "cache_entry s m = Some None")
    case True
    then obtain ids where ul: "unique_loop G = (ids, idxs, maps)" using ab by blast
    have "j < length G" using j lG n by simp
    from unique_loop_groups [OF ul gi this] same show ?thesis by (simp add: G_def)
  next
    case False
    then have "s1 = s" using pr by simp
    then have ce0: "cache_entry s m = Some (Some (idxs, maps, n))" using ce by simp
    have all: "\<forall>i\<in>set [0..<n]. \<forall>j\<in>set [0..<n]. G ! i = G ! j \<longrightarrow>
             (\<forall>g\<in>set maps. i \<in> set g \<longleftrightarrow> j \<in> set g)"
      using ag unfolding aliases_grouped_def ce0 G_def by (simp only: option.case prod.case)
    have "i \<in> set [0..<n]" "j \<in> set [0..<n]" using i j n by simp_all
    moreover have "G ! i = G ! j" using same by (simp add: G_def)
    moreover have "maps ! gi \<in> set maps" using gi(1) by simp
    ultimately have "i \<in> set (maps ! gi) \<longleftrightarrow> j \<in> set (maps ! gi)" using all by blast
    then show ?thesis using gi(2) by simp
  qed
  have fill: "\<exists>A. expand_unique s1 m us = Inr A \<and> A ! i = us ! gi \<and> A ! j = us ! gi"
    if "gi < length us" and "length us \<le> length (map ((!) G) idxs)" for us
  proof -
    have "length us \<le> length maps" using that(2) lm by simp
    from expand_unique_ok [OF ce wf this] obtain A where
      "expand_unique s1 m us = Inr A" "\<forall>j<length us. \<forall>i\<in>set (maps ! j). A ! i = us ! j"
      by blast
    then show ?thesis using that(1) gi(2) jin by blast
  qed
  have "length (map ((!) G) idxs) = length maps" using lm by simp
  then show ?thesis using g ce gi jin fill by blast
qed

text \<open>
  Claim C7 as stated fails on an object whose index was computed while \<^verbatim>\<open>A\<close> and \<^verbatim>\<open>B\<close>
  held different tensors and which then received one tensor for both: \<^verbatim>\<open>getparams\<close>
  returns the identical tensor at the positions 0 and 1, the cached index still has two
  groups, and \<^verbatim>\<open>setuniqueparams\<close> hands two different tensors to \<^verbatim>\<open>setparams\<close>.
\<close>

theorem setuniqueparams_splits_merged_obj:
  "getparams layout_AB merged_obj ''forward'' ! 0 = getparams layout_AB merged_obj ''forward'' ! 1 \<and>
   expand_unique merged_obj ''forward'' [Tensor 4, Tensor 5] = Inr [Tensor 4, Tensor 5]"
  by code_simp

text \<open>
  The object whose index was computed on three identical tensors and whose parameters
  were then set to \<open>t1, t1, t2\<close> has a registry the code produced.
\<close>

lemma coarse_obj_wf: "cache_wf layout_ABC coarse_obj ''forward''"
proof -
  have w0: "cache_wf layout_ABC obj_AAA ''forward''"
    by (simp add: cache_wf_def cache_entry_def obj_AAA_def)
  from getuniqueparams_wf [OF w0] obtain U s1 where
    g: "getuniqueparams layout_ABC obj_AAA ''forward'' = Inr (U, s1)" by blast
  have w1: "cache_wf layout_ABC s1 ''forward''" using cache_wf_getuniqueparams [OF w0 g] by simp
  obtain k s2 where sp: "setparams layout_ABC s1 ''forward'' [Tensor 1, Tensor 1, Tensor 2] = Inr (k, s2)"
    by (simp add: setparams_def layout_ABC_def)
  have "coarse_obj = s2" using g sp by (simp add: coarse_obj_def)
  then show ?thesis using cache_wf_setparams [OF w1 sp] by simp
qed

text \<open>
  The theorem of C7 at that object, whose cached index is coarser than the identities of
  its parameters, for the positions 0 and 1.
\<close>

theorem setuniqueparams_fills_alias_group_witness:
  "cache_wf layout_ABC coarse_obj ''forward'' \<and>
   aliases_grouped layout_ABC coarse_obj ''forward'' \<and>
   (0::nat) < length (layout_ABC ''forward'') \<and> (1::nat) < length (layout_ABC ''forward'') \<and>
   getparams layout_ABC coarse_obj ''forward'' = [Tensor 1, Tensor 1, Tensor 2] \<and>
   getparams layout_ABC coarse_obj ''forward'' ! 0 = getparams layout_ABC coarse_obj ''forward'' ! 1 \<and>
   cache_entry coarse_obj ''forward'' = Some (Some ([0], [[0, 1, 2]], 3)) \<and>
   (\<exists>U s1 idxs maps n g. getuniqueparams layout_ABC coarse_obj ''forward'' = Inr (U, s1) \<and>
      cache_entry s1 ''forward'' = Some (Some (idxs, maps, n)) \<and> length U = length maps \<and>
      g < length maps \<and> 0 \<in> set (maps ! g) \<and> 1 \<in> set (maps ! g) \<and>
      (\<forall>us. g < length us \<longrightarrow> length us \<le> length U \<longrightarrow>
         (\<exists>A. expand_unique s1 ''forward'' us = Inr A \<and> A ! 0 = us ! g \<and> A ! 1 = us ! g)))"
proof -
  have w: "cache_wf layout_ABC coarse_obj ''forward''" by (rule coarse_obj_wf)
  have a: "aliases_grouped layout_ABC coarse_obj ''forward''" by code_simp
  have i: "(0::nat) < length (layout_ABC ''forward'')" by (simp add: layout_ABC_def)
  have j: "(1::nat) < length (layout_ABC ''forward'')" by (simp add: layout_ABC_def)
  have v: "getparams layout_ABC coarse_obj ''forward'' = [Tensor 1, Tensor 1, Tensor 2]"
    by code_simp
  have e: "getparams layout_ABC coarse_obj ''forward'' ! 0 =
      getparams layout_ABC coarse_obj ''forward'' ! 1" using v by simp
  have c: "cache_entry coarse_obj ''forward'' = Some (Some ([0], [[0, 1, 2]], 3))" by code_simp
  from setuniqueparams_fills_alias_group [OF w a i j e] w a i j v e c show ?thesis by blast
qed

section \<open>Scoped substitution\<close>

text \<open>
  Claim C4. For every object whose registry the code can have produced and every method
  \<open>m\<close>: if \<^verbatim>\<open>getuniqueparams(m)\<close> returns \<open>U\<close> immediately before
  \<^verbatim>\<open>with obj.useparams(m, *ps): block\<close>, it returns \<open>U\<close> again after the \<^verbatim>\<open>with\<close>
  statement, for every list \<open>ps\<close> and every block, whether the block ends normally, raises
  an exception or is aborted, and also when the substitution itself fails.
\<close>

theorem useparams_restores_unique_params:
  assumes "cache_wf L s m"
  shows "\<exists>U s1. getuniqueparams L s m = Inr (U, s1) \<and>
           (\<forall>ps blk. \<exists>s3. getuniqueparams L (fst (useparams L s1 m ps blk)) m = Inr (U, s3))"
proof -
  from getuniqueparams_wf [OF assms] obtain idxs maps n s1 where
    g: "getuniqueparams L s m = Inr (map ((!) (getparams L s m)) idxs, s1)"
    and a: "attrs s1 = attrs s"
    and ce: "cache_entry s1 m = Some (Some (idxs, maps, n))"
    and wf: "index_wf (L m) idxs maps n"
    by blast
  let ?U = "map ((!) (getparams L s m)) idxs"
  have "getparams L s1 m = getparams L s m" using a by (simp add: getparams_def)
  then have g1: "getuniqueparams L s1 m = Inr (?U, s1)"
    using getuniqueparams_present [where L = L, OF ce wf] by simp
  have len: "length ?U = length idxs" by simp
  have "\<exists>s3. getuniqueparams L (fst (useparams L s1 m ps blk)) m = Inr (?U, s3)" for ps blk
    using useparams_exit [where L = L, OF ce wf g1 len, of ps blk] by auto
  then show ?thesis using g by blast
qed

text \<open>
  The theorem of C4 at a new object, with a block that rebinds an attribute and raises.
\<close>

theorem useparams_restores_unique_params_witness:
  "cache_wf layout_AB (obj_AB (Tensor 1) (Tensor 1)) ''forward'' \<and>
   (\<exists>U s1. getuniqueparams layout_AB (obj_AB (Tensor 1) (Tensor 1)) ''forward'' = Inr (U, s1) \<and>
      (\<exists>s3. getuniqueparams layout_AB
              (fst (useparams layout_AB s1 ''forward'' [Tensor 7] failing_block)) ''forward'' =
            Inr (U, s3)))"
proof -
  have w: "cache_wf layout_AB (obj_AB (Tensor 1) (Tensor 1)) ''forward''"
    by (simp add: cache_wf_def cache_entry_def obj_AB_def)
  from useparams_restores_unique_params [OF w] w show ?thesis by blast
qed

text \<open>
  Claim C5, as amended. If the block run under \<^verbatim>\<open>useparams\<close> raises an exception \<open>e\<close>
  that is an instance of \<^verbatim>\<open>Exception\<close>, the exception is printed and the \<^verbatim>\<open>with\<close>
  statement completes normally: the caller does not see \<open>e\<close>.
\<close>

theorem useparams_suppresses_exception:
  assumes wf: "cache_wf L s m"
    and blk: "case useparams_enter L s m ps of
                Inl r \<Rightarrow> False
              | Inr (orig, s2) \<Rightarrow> snd (blk (attrs s2)) = Raised e"
  shows "snd (useparams L s m ps blk) = ([e], Completed)"
proof -
  from blk obtain orig s2 where en: "useparams_enter L s m ps = Inr (orig, s2)"
      and r: "snd (blk (attrs s2)) = Raised e"
    by (auto split: sum.splits)
  from getuniqueparams_wf [OF wf] obtain idxs maps n s1 where
    g: "getuniqueparams L s m = Inr (map ((!) (getparams L s m)) idxs, s1)"
    and ce: "cache_entry s1 m = Some (Some (idxs, maps, n))"
    and iw: "index_wf (L m) idxs maps n"
    by blast
  from en g obtain k where su: "setuniqueparams L s1 m ps = Inr (k, s2)"
      and o: "orig = map ((!) (getparams L s m)) idxs"
    by (auto simp: useparams_enter_def restore_def split: sum.splits prod.splits)
  have ce2: "cache_entry s2 m = Some (Some (idxs, maps, n))"
    using setuniqueparams_cache [OF su, of m] ce by simp
  obtain a3 where b: "blk (attrs s2) = (a3, Raised e)" using r by (cases "blk (attrs s2)") auto
  have ce3: "cache_entry (s2\<lparr>attrs := a3\<rparr>) m = Some (Some (idxs, maps, n))"
    using ce2 by simp
  have len: "length orig = length idxs" using o by simp
  from restore_ok [where L = L, OF ce3 iw len, of Completed] obtain s' where
    "restore L (s2\<lparr>attrs := a3\<rparr>) m orig Completed = (s', Completed)" by blast
  then show ?thesis using en b by (simp add: useparams_def)
qed

text \<open>
  Claim C5 as stated fails for a block that is interrupted from the keyboard:
  \<^verbatim>\<open>KeyboardInterrupt\<close> is not an instance of \<^verbatim>\<open>Exception\<close>, so the handler of line 89
  neither prints nor suppresses it, and the caller sees it.
\<close>

theorem useparams_passes_keyboard_interrupt:
  "snd (useparams layout_AB (obj_AB (Tensor 1) (Tensor 2)) ''forward'' [Tensor 7, Tensor 8]
          interrupted_block) = ([], Aborted KeyboardInterrupt)"
  by code_simp

text \<open>
  The theorem of C5 at a new object with two different tensors and the raising block.
\<close>

theorem useparams_suppresses_exception_witness:
  "cache_wf layout_AB (obj_AB (Tensor 1) (Tensor 2)) ''forward'' \<and>
   (case useparams_enter layout_AB (obj_AB (Tensor 1) (Tensor 2)) ''forward'' [Tensor 7, Tensor 8] of
      Inl r \<Rightarrow> False
    | Inr (orig, s2) \<Rightarrow> snd (failing_block (attrs s2)) = Raised (UserError ''boom'')) \<and>
   snd (useparams layout_AB (obj_AB (Tensor 1) (Tensor 2)) ''forward'' [Tensor 7, Tensor 8]
          failing_block) = ([UserError ''boom''], Completed)"
proof -
  have w: "cache_wf layout_AB (obj_AB (Tensor 1) (Tensor 2)) ''forward''"
    by (simp add: cache_wf_def cache_entry_def obj_AB_def)
  have b: "case useparams_enter layout_AB (obj_AB (Tensor 1) (Tensor 2)) ''forward''
                  [Tensor 7, Tensor 8] of
             Inl r \<Rightarrow> False
           | Inr (orig, s2) \<Rightarrow> snd (failing_block (attrs s2)) = Raised (UserError ''boom'')"
    by code_simp
  from useparams_suppresses_exception [OF w b] w b show ?thesis by blast
qed

text \<open>
  A signal that is not an \<^verbatim>\<open>Exception\<close>, such as \<^verbatim>\<open>KeyboardInterrupt\<close>, is not caught by
  the handler: the parameters are restored and the signal goes on to the caller.
\<close>

lemma useparams_passes_signal:
  assumes wf: "cache_wf L s m"
    and blk: "case useparams_enter L s m ps of
                Inl r \<Rightarrow> False
              | Inr (orig, s2) \<Rightarrow> snd (blk (attrs s2)) = Aborted sg"
  shows "snd (useparams L s m ps blk) = ([], Aborted sg)"
proof -
  from blk obtain orig s2 where en: "useparams_enter L s m ps = Inr (orig, s2)"
      and r: "snd (blk (attrs s2)) = Aborted sg"
    by (auto split: sum.splits)
  from getuniqueparams_wf [OF wf] obtain idxs maps n s1 where
    g: "getuniqueparams L s m = Inr (map ((!) (getparams L s m)) idxs, s1)"
    and ce: "cache_entry s1 m = Some (Some (idxs, maps, n))"
    and iw: "index_wf (L m) idxs maps n"
    by blast
  from en g obtain k where su: "setuniqueparams L s1 m ps = Inr (k, s2)"
      and o: "orig = map ((!) (getparams L s m)) idxs"
    by (auto simp: useparams_enter_def restore_def split: sum.splits prod.splits)
  have ce2: "cache_entry s2 m = Some (Some (idxs, maps, n))"
    using setuniqueparams_cache [OF su, of m] ce by simp
  obtain a3 where b: "blk (attrs s2) = (a3, Aborted sg)" using r by (cases "blk (attrs s2)") auto
  have ce3: "cache_entry (s2\<lparr>attrs := a3\<rparr>) m = Some (Some (idxs, maps, n))"
    using ce2 by simp
  have len: "length orig = length idxs" using o by simp
  from restore_ok [where L = L, OF ce3 iw len, of "Aborted sg"] obtain s' where
    "restore L (s2\<lparr>attrs := a3\<rparr>) m orig (Aborted sg) = (s', Aborted sg)" by blast
  then show ?thesis using en b by (simp add: useparams_def)
qed

section \<open>The checks of solve_ivp\<close>

lemma solver_table_None:
  "m \<notin> {''rk4'', ''rk38'', ''rk23'', ''rk45''} \<Longrightarrow> solver_table env m = None"
  by (simp add: solver_table_def)

text \<open>
  Claim C3, what the code does. When the method name, in lower case, is none of
  \<^verbatim>\<open>rk4\<close>, \<^verbatim>\<open>rk38\<close>, \<^verbatim>\<open>rk23\<close>, \<^verbatim>\<open>rk45\<close>, \<^verbatim>\<open>forward\<close> raises \<^verbatim>\<open>KeyError('method')\<close>:
  the handler that builds the message \<^verbatim>\<open>Unknown solve_ivp method: ...\<close> reads
  \<^verbatim>\<open>config["method"]\<close> after \<^verbatim>\<open>config.pop("method")\<close> has removed that key. The error
  raised does not name the offending value.
\<close>

theorem forward_unknown_method_key_error:
  assumes "fwd_options ''method'' = Some (OStr name)"
    and "lower name \<notin> {''rk4'', ''rk38'', ''rk23'', ''rk45''}"
  shows "forward env pfcn ts fwd_options bck_options nparams y0 allparams =
           ([], Inl (KeyError ''method''))"
proof -
  have "solver_table env (lower name) = None" using assms(2) by (rule solver_table_None)
  then show ?thesis using assms(1)
    by (simp add: forward_def set_default_option_def Let_def)
qed

text \<open>
  The theorem of C3 for the method name \<^verbatim>\<open>rk99\<close>.
\<close>

theorem forward_unknown_method_key_error_witness:
  "[''method'' \<mapsto> OStr ''rk99''] ''method'' = Some (OStr ''rk99'') \<and>
   lower ''rk99'' \<notin> {''rk4'', ''rk38'', ''rk23'', ''rk45''} \<and>
   forward demo_env (pfcn_one demo_fcn) grid_012 [''method'' \<mapsto> OStr ''rk99''] Map.empty 1 [1]
       [TensorP [2] True] =
     ([], Inl (KeyError ''method''))"
proof -
  have a: "[''method'' \<mapsto> OStr ''rk99''] ''method'' = Some (OStr ''rk99'')" by simp
  have b: "lower ''rk99'' \<notin> {''rk4'', ''rk38'', ''rk23'', ''rk45''}"
    by (simp add: lower_def ascii_lower_def)
  have "forward demo_env (pfcn_one demo_fcn) grid_012 [''method'' \<mapsto> OStr ''rk99''] Map.empty 1 [1]
       [TensorP [2] True] = ([], Inl (KeyError ''method''))"
    using a b by (rule forward_unknown_method_key_error)
  then show ?thesis using a b by blast
qed

lemma solver_table_Some:
  "m \<in> {''rk4'', ''rk38'', ''rk23'', ''rk45''} \<Longrightarrow> \<exists>sv. solver_table env m = Some sv"
  by (auto simp: solver_table_def)

lemma forward_events:
  fixes env :: "('a, 'o) torch_env"
  shows "fst (forward env pf ts fwd_options bck_options n y a) = method_events fwd_options ts"
proof (cases "set_default_option [''method'' \<mapsto> OStr ''rk45''] fwd_options ''method''")
  case None
  then show ?thesis by (simp add: forward_def method_events_def Let_def)
next
  case (Some v)
  show ?thesis
  proof (cases v)
    case (ONum k)
    then show ?thesis using Some by (simp add: forward_def method_events_def Let_def)
  next
    case (OStr name)
    show ?thesis
    proof (cases "lower name \<in> {''rk4'', ''rk38'', ''rk23'', ''rk45''}")
      case True
      then obtain sv where sv: "solver_table env (lower name) = Some sv"
        using solver_table_Some by blast
      have me: "(method_events fwd_options ts :: ('a, 'o) event list) =
          [Select (lower name), Integrate (lower name) ts]"
        using Some OStr True by (simp add: method_events_def)
      show ?thesis
        using Some OStr sv me
        by (cases "sv pf ts y (take n a)
              ((set_default_option [''method'' \<mapsto> OStr ''rk45''] fwd_options)(''method'' := None))")
           (simp_all add: forward_def Let_def)
    next
      case False
      then have nn: "solver_table env (lower name) = None" by (rule solver_table_None)
      have me: "(method_events fwd_options ts :: ('a, 'o) event list) = []"
        using Some OStr False by (simp add: method_events_def)
      show ?thesis using Some OStr nn me by (simp add: forward_def Let_def)
    qed
  qed
qed

lemma method_events_integrate:
  "(\<exists>m. Integrate m ts \<in> set (method_events fwd_options ts)) \<longleftrightarrow> method_known fwd_options"
proof (cases "set_default_option [''method'' \<mapsto> OStr ''rk45''] fwd_options ''method''")
  case None
  then show ?thesis by (simp add: method_events_def method_known_def)
next
  case (Some v)
  then show ?thesis by (cases v) (auto simp: method_events_def method_known_def)
qed

lemma method_events_kind:
  assumes "ev \<in> set (method_events fwd_options ts)"
  shows "(\<exists>m. ev = Select m) \<or> (\<exists>m. ev = Integrate m ts)"
proof (cases "set_default_option [''method'' \<mapsto> OStr ''rk45''] fwd_options ''method''")
  case None
  then show ?thesis using assms by (simp add: method_events_def)
next
  case (Some v)
  then show ?thesis using assms by (cases v) (auto simp: method_events_def split: if_splits)
qed

text \<open>
The events of lines 49 to 74, by the checks that the call passes.
\<close>

lemma checked_events:
  "fst (solve_ivp_checked env fcn ts y0 params fwd_options bck_options) =
     (if length (shape ts) \<noteq> 1 then []
      else case grid_first ts of
             Inl e \<Rightarrow> []
           | Inr t0 \<Rightarrow>
              (case fcn t0 y0 params of
                 Inl e \<Rightarrow> [EvalFcn t0 y0 params]
               | Inr dydt \<Rightarrow>
                  (if is_list y0 \<noteq> is_list dydt then [EvalFcn t0 y0 params]
                   else EvalFcn t0 y0 params # method_events fwd_options ts)))"
proof (cases "length (shape ts) = 1")
  case False
  then show ?thesis by (simp add: solve_ivp_checked_def assert_runtime_def)
next
  case one: True
  show ?thesis
  proof (cases "grid_first ts")
    case (Inl e)
    then show ?thesis using one by (simp add: solve_ivp_checked_def assert_runtime_def)
  next
    case (Inr t0)
    show ?thesis
    proof (cases "fcn t0 y0 params")
      case (Inl e)
      then show ?thesis using one Inr by (simp add: solve_ivp_checked_def assert_runtime_def)
    next
      case fr: (Inr dydt)
      show ?thesis
      proof (cases "is_list y0 \<noteq> is_list dydt")
        case True
        then show ?thesis using one Inr fr
          by (simp add: solve_ivp_checked_def assert_runtime_def)
      next
        case False
        show ?thesis
        proof (cases y0)
          case (One y)
          obtain evs r where f: "forward env (pfcn_one fcn) ts fwd_options bck_options
              (length params) y (params @ objparams env) = (evs, r)"
            by (cases "forward env (pfcn_one fcn) ts fwd_options bck_options
              (length params) y (params @ objparams env)") auto
          have "evs = method_events fwd_options ts"
            using forward_events [of env "pfcn_one fcn" ts fwd_options bck_options
                "length params" y "params @ objparams env"] f by simp
          then show ?thesis using one Inr fr False One f
            by (cases r) (auto simp: solve_ivp_checked_def assert_runtime_def)
        next
          case (Many ys)
          obtain evs r where f: "forward env (pfcn2 env ys fcn) ts fwd_options bck_options
              (length params) (flatten env ys) (params @ objparams env) = (evs, r)"
            by (cases "forward env (pfcn2 env ys fcn) ts fwd_options bck_options
              (length params) (flatten env ys) (params @ objparams env)") auto
          have "evs = method_events fwd_options ts"
            using forward_events [of env "pfcn2 env ys fcn" ts fwd_options bck_options
                "length params" "flatten env ys" "params @ objparams env"] f by simp
          then show ?thesis using one Inr fr False Many f
            by (cases r) (auto simp: solve_ivp_checked_def assert_runtime_def)
        qed
      qed
    qed
  qed
qed

lemma checked_integrates:
  fixes env :: "('a, 'o) torch_env"
  shows "(\<exists>m. Integrate m ts \<in> set (fst (solve_ivp_checked env fcn ts y0 params fwd_options bck_options)))
     \<longleftrightarrow>
   (length (shape ts) = 1 \<and>
    (\<exists>t0 dydt. grid_first ts = Inr t0 \<and> fcn t0 y0 params = Inr dydt \<and>
       is_list y0 = is_list dydt) \<and>
    method_known fwd_options)"
proof (cases "length (shape ts) = 1")
  case False
  then show ?thesis by (simp add: checked_events)
next
  case one: True
  show ?thesis
  proof (cases "grid_first ts")
    case (Inl e)
    then show ?thesis using one by (simp add: checked_events)
  next
    case (Inr t0)
    show ?thesis
    proof (cases "fcn t0 y0 params")
      case (Inl e)
      then show ?thesis using one Inr by (simp add: checked_events)
    next
      case fr: (Inr dydt)
      show ?thesis
      proof (cases "is_list y0 \<noteq> is_list dydt")
        case True
        then show ?thesis using one Inr fr by (simp add: checked_events)
      next
        case False
        have "fst (solve_ivp_checked env fcn ts y0 params fwd_options bck_options) =
            EvalFcn t0 y0 params # method_events fwd_options ts"
          using one Inr fr False by (simp add: checked_events)
        then have "(\<exists>m. Integrate m ts \<in> set (fst (solve_ivp_checked env fcn ts y0 params
            fwd_options bck_options))) \<longleftrightarrow>
            (\<exists>m. Integrate m ts \<in> set (method_events fwd_options ts :: ('a, 'o) event list))"
          by simp
        then show ?thesis
          using one Inr fr False
            method_events_integrate [where ?'b = 'o, of ts fwd_options] by simp
      qed
    qed
  qed
qed

lemma checked_events_kind:
  fixes env :: "('a, 'o) torch_env"
  assumes "ev \<in> set (fst (solve_ivp_checked env fcn ts y0 params fwd_options bck_options))"
  shows "(\<exists>t y ps. ev = EvalFcn t y ps) \<or> (\<exists>m. ev = Select m) \<or> (\<exists>m. ev = Integrate m ts)"
proof -
  have sub: "set (fst (solve_ivp_checked env fcn ts y0 params fwd_options bck_options)) \<subseteq>
      {ev. \<exists>t y ps. ev = EvalFcn t y ps} \<union> set (method_events fwd_options ts)"
  proof (cases "length (shape ts) = 1")
    case False
    then show ?thesis by (simp add: checked_events)
  next
    case one: True
    show ?thesis
    proof (cases "grid_first ts")
      case (Inl e)
      then show ?thesis using one by (simp add: checked_events)
    next
      case (Inr t0)
      show ?thesis
      proof (cases "fcn t0 y0 params")
        case (Inl e)
        then show ?thesis using one Inr by (simp add: checked_events)
      next
        case fr: (Inr dydt)
        then show ?thesis using one Inr
          by (cases "is_list y0 \<noteq> is_list dydt") (auto simp: checked_events)
      qed
    qed
  qed
  then have "(\<exists>t y ps. ev = EvalFcn t y ps) \<or> ev \<in> set (method_events fwd_options ts)"
    using assms by blast
  then show ?thesis using method_events_kind [of ev fwd_options ts] by blast
qed


lemma debug_events_kind:
  assumes "ev \<in> set (fst (debug_check env fcn ts y0 params))"
  shows "\<exists>t y ps. ev = EvalFcn t y ps"
  using assms by (auto simp: debug_check_def split: if_splits sum.splits prod.splits)

lemma solve_ivp_events:
  "fst (solve_ivp env fcn ts y0 params fwd_options bck_options) =
     (if snd (debug_check env fcn ts y0 params) = None
      then fst (debug_check env fcn ts y0 params) @
           fst (solve_ivp_checked env fcn ts y0 params fwd_options bck_options)
      else fst (debug_check env fcn ts y0 params))"
  by (cases "debug_check env fcn ts y0 params";
      cases "solve_ivp_checked env fcn ts y0 params fwd_options bck_options")
     (auto simp: solve_ivp_def split: option.splits)

text \<open>
  The part of claim C9 that is read off the events: the rejection of a grid that is not
  1-dimensional, and when a stepping function is called and on which grid.
\<close>

lemma grid_check_events:
  fixes env :: "('a, 'o) torch_env"
  shows "(length (shape ts) \<noteq> 1 \<longrightarrow>
      (\<exists>e. snd (solve_ivp env fcn ts y0 params fwd_options bck_options) = Inl e) \<and>
      (\<forall>ev\<in>set (fst (solve_ivp env fcn ts y0 params fwd_options bck_options)).
         \<exists>t y ps. ev = EvalFcn t y ps) \<and>
      (\<not> is_debug_enabled env \<longrightarrow>
         solve_ivp env fcn ts y0 params fwd_options bck_options =
           ([], Inl (RuntimeError ''Argument ts must be a 1D tensor'')))) \<and>
   ((\<exists>m. Integrate m ts \<in> set (fst (solve_ivp env fcn ts y0 params fwd_options bck_options)))
      \<longleftrightarrow>
    (length (shape ts) = 1 \<and>
     snd (debug_check env fcn ts y0 params) = None \<and>
     (\<exists>t0 dydt. grid_first ts = Inr t0 \<and> fcn t0 y0 params = Inr dydt \<and>
        is_list y0 = is_list dydt) \<and>
     method_known fwd_options)) \<and>
   (\<forall>m g. Integrate m g \<in> set (fst (solve_ivp env fcn ts y0 params fwd_options bck_options))
      \<longrightarrow> g = ts)"
proof (intro conjI impI allI)
  assume n1: "length (shape ts) \<noteq> 1"
  have ck: "solve_ivp_checked env fcn ts y0 params fwd_options bck_options =
      ([], Inl (RuntimeError ''Argument ts must be a 1D tensor''))"
    using n1 by (simp add: solve_ivp_checked_def assert_runtime_def)
  show "\<exists>e. snd (solve_ivp env fcn ts y0 params fwd_options bck_options) = Inl e"
    using ck by (cases "debug_check env fcn ts y0 params")
      (auto simp: solve_ivp_def split: option.splits)
  show "\<forall>ev\<in>set (fst (solve_ivp env fcn ts y0 params fwd_options bck_options)).
         \<exists>t y ps. ev = EvalFcn t y ps"
    using ck debug_events_kind [of _ env fcn ts y0 params]
    by (auto simp: solve_ivp_events)
next
  assume "length (shape ts) \<noteq> 1" and "\<not> is_debug_enabled env"
  then show "solve_ivp env fcn ts y0 params fwd_options bck_options =
           ([], Inl (RuntimeError ''Argument ts must be a 1D tensor''))"
    by (simp add: solve_ivp_def debug_check_def solve_ivp_checked_def assert_runtime_def)
next
  have noint: "Integrate m g \<notin> set (fst (debug_check env fcn ts y0 params))" for m g
    using debug_events_kind [of "Integrate m g" env fcn ts y0 params] by auto
  show "(\<exists>m. Integrate m ts \<in> set (fst (solve_ivp env fcn ts y0 params fwd_options bck_options)))
      \<longleftrightarrow>
    (length (shape ts) = 1 \<and>
     snd (debug_check env fcn ts y0 params) = None \<and>
     (\<exists>t0 dydt. grid_first ts = Inr t0 \<and> fcn t0 y0 params = Inr dydt \<and>
        is_list y0 = is_list dydt) \<and>
     method_known fwd_options)"
  proof (cases "snd (debug_check env fcn ts y0 params) = None")
    case True
    then have "(\<exists>m. Integrate m ts \<in> set (fst (solve_ivp env fcn ts y0 params fwd_options
        bck_options))) \<longleftrightarrow>
      (\<exists>m. Integrate m ts \<in> set (fst (solve_ivp_checked env fcn ts y0 params fwd_options
        bck_options)))"
      using noint by (simp add: solve_ivp_events)
    then show ?thesis using True checked_integrates [of ts env fcn y0 params fwd_options bck_options]
      by simp
  next
    case False
    then have "fst (solve_ivp env fcn ts y0 params fwd_options bck_options) =
        fst (debug_check env fcn ts y0 params)"
      by (simp only: solve_ivp_events if_False)
    then have "\<not> (\<exists>m. Integrate m ts \<in> set (fst (solve_ivp env fcn ts y0 params fwd_options
        bck_options)))"
      using noint by simp
    then show ?thesis using False by blast
  qed
next
  fix m g
  assume a: "Integrate m g \<in> set (fst (solve_ivp env fcn ts y0 params fwd_options bck_options))"
  have "Integrate m g \<notin> set (fst (debug_check env fcn ts y0 params))"
    using debug_events_kind [of "Integrate m g" env fcn ts y0 params] by auto
  then have "Integrate m g \<in> set (fst (solve_ivp_checked env fcn ts y0 params fwd_options
      bck_options))"
    using a by (auto simp: solve_ivp_events split: if_splits)
  then show "g = ts"
    using checked_events_kind [of "Integrate m g" env fcn ts y0 params fwd_options bck_options]
    by auto
qed

text \<open>
  When the call passes the checks, what \<^verbatim>\<open>solve_ivp\<close> returns is what the stepping
  function of the method returns on the grid \<^verbatim>\<open>ts\<close> itself, packed when \<^verbatim>\<open>y0\<close> is a
  list.
\<close>

lemma solve_ivp_result:
  fixes env :: "('a, 'o) torch_env"
  assumes one: "length (shape ts) = 1"
    and dbg: "snd (debug_check env fcn ts y0 params) = None"
    and t0: "grid_first ts = Inr t0"
    and fr: "fcn t0 y0 params = Inr dydt"
    and tl: "is_list y0 = is_list dydt"
    and nm: "set_default_option [''method'' \<mapsto> OStr ''rk45''] fwd_options ''method'' =
               Some (OStr name)"
    and sv: "solver_table env (lower name) = Some sv"
  shows "snd (solve_ivp env fcn ts y0 params fwd_options bck_options) =
     (let config = (set_default_option [''method'' \<mapsto> OStr ''rk45''] fwd_options)
                     (''method'' := None)
      in case y0 of
           One y \<Rightarrow>
             (case sv (pfcn_one fcn) ts y params config of
                Inl e \<Rightarrow> Inl e
              | Inr yt \<Rightarrow> Inr (TrajOne yt))
         | Many ys \<Rightarrow>
             (case sv (pfcn2 env ys fcn) ts (flatten env ys) params config of
                Inl e \<Rightarrow> Inl e
              | Inr res \<Rightarrow> Inr (TrajMany (pack_traj env ys res))))"
proof -
  let ?cfg = "(set_default_option [''method'' \<mapsto> OStr ''rk45''] fwd_options)(''method'' := None)"
  have fw: "snd (forward env pf ts fwd_options bck_options (length params) y
                   (params @ objparams env)) =
      (case sv pf ts y params ?cfg of Inl e \<Rightarrow> Inl e
       | Inr yt \<Rightarrow> Inr (yt, \<lparr>ctx_bck_config =
                                 set_default_option
                                   (set_default_option [''method'' \<mapsto> OStr ''rk45''] fwd_options)
                                   bck_options,
                               ctx_param_sep = params @ objparams env,
                               ctx_ts = ts, ctx_y0 = y,
                               ctx_tensor_params = get_tensor_params (params @ objparams env),
                               ctx_pfcn = pf, ctx_nparams = length params, ctx_yt = yt,
                               ctx_ts_requires_grad = requires_grad ts\<rparr>))" for pf y
    using nm sv by (cases "sv pf ts y params ?cfg") (simp_all add: forward_def Let_def)
  have ck: "snd (solve_ivp env fcn ts y0 params fwd_options bck_options) =
      snd (solve_ivp_checked env fcn ts y0 params fwd_options bck_options)"
    using dbg
    by (cases "debug_check env fcn ts y0 params";
        cases "solve_ivp_checked env fcn ts y0 params fwd_options bck_options")
       (simp add: solve_ivp_def)
  show ?thesis
  proof (cases y0)
    case (One y)
    obtain evs r where f: "forward env (pfcn_one fcn) ts fwd_options bck_options
        (length params) y (params @ objparams env) = (evs, r)"
      by (cases "forward env (pfcn_one fcn) ts fwd_options bck_options
        (length params) y (params @ objparams env)") auto
    have r: "r = (case sv (pfcn_one fcn) ts y params ?cfg of Inl e \<Rightarrow> Inl e
       | Inr yt \<Rightarrow> Inr (yt, \<lparr>ctx_bck_config =
                                 set_default_option
                                   (set_default_option [''method'' \<mapsto> OStr ''rk45''] fwd_options)
                                   bck_options,
                               ctx_param_sep = params @ objparams env,
                               ctx_ts = ts, ctx_y0 = y,
                               ctx_tensor_params = get_tensor_params (params @ objparams env),
                               ctx_pfcn = pfcn_one fcn, ctx_nparams = length params, ctx_yt = yt,
                               ctx_ts_requires_grad = requires_grad ts\<rparr>))"
      using fw [of "pfcn_one fcn" y] f by simp
    show ?thesis
      using ck one t0 fr tl One f r
      by (cases "sv (pfcn_one fcn) ts y params ?cfg")
         (simp_all add: solve_ivp_checked_def assert_runtime_def Let_def)
  next
    case (Many ys)
    obtain evs r where f: "forward env (pfcn2 env ys fcn) ts fwd_options bck_options
        (length params) (flatten env ys) (params @ objparams env) = (evs, r)"
      by (cases "forward env (pfcn2 env ys fcn) ts fwd_options bck_options
        (length params) (flatten env ys) (params @ objparams env)") auto
    have r: "r = (case sv (pfcn2 env ys fcn) ts (flatten env ys) params ?cfg of Inl e \<Rightarrow> Inl e
       | Inr yt \<Rightarrow> Inr (yt, \<lparr>ctx_bck_config =
                                 set_default_option
                                   (set_default_option [''method'' \<mapsto> OStr ''rk45''] fwd_options)
                                   bck_options,
                               ctx_param_sep = params @ objparams env,
                               ctx_ts = ts, ctx_y0 = flatten env ys,
                               ctx_tensor_params = get_tensor_params (params @ objparams env),
                               ctx_pfcn = pfcn2 env ys fcn, ctx_nparams = length params,
                               ctx_yt = yt,
                               ctx_ts_requires_grad = requires_grad ts\<rparr>))"
      using fw [of "pfcn2 env ys fcn" "flatten env ys"] f by simp
    show ?thesis
      using ck one t0 fr tl Many f r
      by (cases "sv (pfcn2 env ys fcn) ts (flatten env ys) params ?cfg")
         (simp_all add: solve_ivp_checked_def assert_runtime_def Let_def)
  qed
qed

text \<open>
  Claim C9, as amended. A time grid that is not 1-dimensional is rejected with an error
  before a stepping function is selected or called; outside the debug mode the error is
  \<^verbatim>\<open>RuntimeError("Argument ts must be a 1D tensor")\<close> and \<^verbatim>\<open>fcn\<close> has not been
  evaluated. Monotonicity is not tested: \<^verbatim>\<open>solve_ivp\<close> calls the selected stepping
  function, and on the grid exactly as it was given, if and only if the grid is
  1-dimensional and has a first entry, the check of the debug mode (when it is on) raises
  nothing, the call \<^verbatim>\<open>fcn(ts[0], y0, *params)\<close> returns an output that is a list exactly
  when \<^verbatim>\<open>y0\<close> is, and the method name is one of the four. None of these conditions
  reads the order of the entries of the grid, and what the call then returns is what the
  stepping function returns on \<^verbatim>\<open>ts\<close>.
\<close>

theorem grid_check:
  fixes env :: "('a, 'o) torch_env"
  shows "(length (shape ts) \<noteq> 1 \<longrightarrow>
      (\<exists>e. snd (solve_ivp env fcn ts y0 params fwd_options bck_options) = Inl e) \<and>
      (\<forall>ev\<in>set (fst (solve_ivp env fcn ts y0 params fwd_options bck_options)).
         \<exists>t y ps. ev = EvalFcn t y ps) \<and>
      (\<not> is_debug_enabled env \<longrightarrow>
         solve_ivp env fcn ts y0 params fwd_options bck_options =
           ([], Inl (RuntimeError ''Argument ts must be a 1D tensor'')))) \<and>
   ((\<exists>m. Integrate m ts \<in> set (fst (solve_ivp env fcn ts y0 params fwd_options bck_options)))
      \<longleftrightarrow>
    (length (shape ts) = 1 \<and>
     snd (debug_check env fcn ts y0 params) = None \<and>
     (\<exists>t0 dydt. grid_first ts = Inr t0 \<and> fcn t0 y0 params = Inr dydt \<and>
        is_list y0 = is_list dydt) \<and>
     method_known fwd_options)) \<and>
   (\<forall>m g. Integrate m g \<in> set (fst (solve_ivp env fcn ts y0 params fwd_options bck_options))
      \<longrightarrow> g = ts) \<and>
   (\<forall>t0 dydt name sv.
      length (shape ts) = 1 \<longrightarrow> snd (debug_check env fcn ts y0 params) = None \<longrightarrow>
      grid_first ts = Inr t0 \<longrightarrow> fcn t0 y0 params = Inr dydt \<longrightarrow>
      is_list y0 = is_list dydt \<longrightarrow>
      set_default_option [''method'' \<mapsto> OStr ''rk45''] fwd_options ''method'' =
        Some (OStr name) \<longrightarrow>
      solver_table env (lower name) = Some sv \<longrightarrow>
      snd (solve_ivp env fcn ts y0 params fwd_options bck_options) =
        (let config = (set_default_option [''method'' \<mapsto> OStr ''rk45''] fwd_options)
                        (''method'' := None)
         in case y0 of
              One y \<Rightarrow>
                (case sv (pfcn_one fcn) ts y params config of
                   Inl e \<Rightarrow> Inl e
                 | Inr yt \<Rightarrow> Inr (TrajOne yt))
            | Many ys \<Rightarrow>
                (case sv (pfcn2 env ys fcn) ts (flatten env ys) params config of
                   Inl e \<Rightarrow> Inl e
                 | Inr res \<Rightarrow> Inr (TrajMany (pack_traj env ys res)))))"
proof -
  note ev = grid_check_events [of ts env fcn y0 params fwd_options bck_options]
  have res: "snd (solve_ivp env fcn ts y0 params fwd_options bck_options) =
        (let config = (set_default_option [''method'' \<mapsto> OStr ''rk45''] fwd_options)
                        (''method'' := None)
         in case y0 of
              One y \<Rightarrow>
                (case sv (pfcn_one fcn) ts y params config of
                   Inl e \<Rightarrow> Inl e
                 | Inr yt \<Rightarrow> Inr (TrajOne yt))
            | Many ys \<Rightarrow>
                (case sv (pfcn2 env ys fcn) ts (flatten env ys) params config of
                   Inl e \<Rightarrow> Inl e
                 | Inr res \<Rightarrow> Inr (TrajMany (pack_traj env ys res))))"
    if "length (shape ts) = 1" and "snd (debug_check env fcn ts y0 params) = None"
      and "grid_first ts = Inr t0" and "fcn t0 y0 params = Inr dydt"
      and "is_list y0 = is_list dydt"
      and "set_default_option [''method'' \<mapsto> OStr ''rk45''] fwd_options ''method'' =
             Some (OStr name)"
      and "solver_table env (lower name) = Some sv"
    for t0 dydt name sv
    using that by (rule solve_ivp_result)
  show ?thesis
    by (rule conjI [OF conjunct1 [OF ev] conjI [OF conjunct1 [OF conjunct2 [OF ev]]
          conjI [OF conjunct2 [OF conjunct2 [OF ev]]]]]) (use res in blast)
qed

text \<open>
  Claim C9 as stated fails on the grid \<open>[0, 2, 1]\<close>, which is 1-dimensional and not
  monotonic: the stepping function is called on it and its result is returned.
\<close>

theorem non_monotonic_grid_integrated:
  "\<not> strictly_monotonic (concat (rows grid_021)) \<and>
   solve_ivp demo_env demo_fcn grid_021 (One [1]) [TensorP [2] True] [''method'' \<mapsto> OStr ''RK4'']
       Map.empty =
     ([EvalFcn [0] (One [1]) [TensorP [2] True], Select ''rk4'', Integrate ''rk4'' grid_021],
      Inr (TrajOne [[1], [5], [- 5]]))"
  by code_simp

text \<open>
  The theorem of C9 at a grid of shape \<open>2 \<times> 2\<close> and at the grid \<open>[0, 2, 1]\<close>.
\<close>

theorem grid_check_witness:
  "length (shape grid_2x2) \<noteq> 1 \<and> \<not> is_debug_enabled demo_env \<and>
   solve_ivp demo_env demo_fcn grid_2x2 (One [1]) [TensorP [2] True] Map.empty Map.empty =
     ([], Inl (RuntimeError ''Argument ts must be a 1D tensor'')) \<and>
   length (shape grid_021) = 1 \<and>
   snd (debug_check demo_env demo_fcn grid_021 (One [1]) [TensorP [2] True]) = None \<and>
   grid_first grid_021 = Inr [0] \<and>
   demo_fcn [0] (One [1]) [TensorP [2] True] = Inr (One [2]) \<and>
   is_list (One [1 :: int]) = is_list (One [2 :: int]) \<and>
   method_known Map.empty \<and>
   (\<exists>m. Integrate m grid_021 \<in>
      set (fst (solve_ivp demo_env demo_fcn grid_021 (One [1]) [TensorP [2] True] Map.empty
                  Map.empty)))"
proof -
  have a: "length (shape grid_2x2) \<noteq> 1" by (simp add: grid_2x2_def)
  have d: "\<not> is_debug_enabled demo_env" by (simp add: demo_env_def)
  have b: "length (shape grid_021) = 1" by (simp add: grid_021_def)
  have c: "snd (debug_check demo_env demo_fcn grid_021 (One [1]) [TensorP [2] True]) = None"
    using d by (simp add: debug_check_def)
  have f: "grid_first grid_021 = Inr [0]" by (simp add: grid_first_def grid_021_def py_get_def)
  have v: "demo_fcn [0] (One [1]) [TensorP [2] True] = Inr (One [2])" by (simp add: demo_fcn_def)
  have l: "is_list (One [1 :: int]) = is_list (One [2 :: int])" by simp
  have k: "method_known Map.empty" by code_simp
  from grid_check [of grid_2x2 demo_env demo_fcn "One [1]" "[TensorP [2] True]" Map.empty Map.empty]
    a d
  have r1: "solve_ivp demo_env demo_fcn grid_2x2 (One [1]) [TensorP [2] True] Map.empty Map.empty =
     ([], Inl (RuntimeError ''Argument ts must be a 1D tensor''))" by blast
  from grid_check [of grid_021 demo_env demo_fcn "One [1]" "[TensorP [2] True]" Map.empty Map.empty]
    b c f v l k
  have r2: "\<exists>m. Integrate m grid_021 \<in>
      set (fst (solve_ivp demo_env demo_fcn grid_021 (One [1]) [TensorP [2] True] Map.empty
                  Map.empty))" by blast
  show ?thesis using a d r1 b c f v l k r2 by blast
qed




section \<open>The backward pass\<close>

lemma run_steps_snoc:
  "run_steps env cl c g (xs @ [i]) st =
     (case run_steps env cl c g xs st of
        Inl e \<Rightarrow> Inl e
      | Inr st1 \<Rightarrow> backward_step env cl c g st1 i)"
  by (induction xs arbitrary: st) (auto split: sum.splits)

lemma time_grad_step_idx:
  "time_grad_step env cl c g i st = Inr st1 \<Longrightarrow> t_flip_idx st1 = t_flip_idx st"
  by (auto simp: time_grad_step_def Let_def split: sum.splits)

lemma backward_step_idx:
  assumes "backward_step env cl c g st i = Inr st'"
  shows "t_flip_idx st' = t_flip_idx st - 1"
proof (cases "ctx_ts_requires_grad c")
  case True
  then obtain st1 where "time_grad_step env cl c g i st = Inr st1"
    using assms by (auto simp: backward_step_def split: sum.splits)
  then show ?thesis using assms True time_grad_step_idx [of env cl c g i st st1]
    by (auto simp: backward_step_def Let_def split: sum.splits)
next
  case False
  then show ?thesis using assms
    by (auto simp: backward_step_def Let_def split: sum.splits)
qed

lemma run_steps_idx:
  "run_steps env cl c g [0..<k] st = Inr st' \<Longrightarrow> t_flip_idx st' = t_flip_idx st - int k"
proof (induction k arbitrary: st')
  case 0
  then show ?case by simp
next
  case (Suc k)
  from Suc.prems obtain st1 where
    a: "run_steps env cl c g [0..<k] st = Inr st1" and b: "backward_step env cl c g st1 k = Inr st'"
    by (auto simp: run_steps_snoc split: sum.splits)
  from Suc.IH [OF a] backward_step_idx [OF b] show ?case by simp
qed

text \<open>
  After \<open>k\<close> passes through the loop body, \<^verbatim>\<open>t_flip_idx\<close> is \<open>- 1 - k\<close>.
\<close>

lemma backward_prefix_idx:
  assumes "backward_prefix env cl c g k = Inr st"
  shows "t_flip_idx st = - 1 - int k"
proof -
  from assms obtain st0 where a: "backward_init env c g = Inr st0"
      and b: "run_steps env cl c g [0..<k] st0 = Inr st"
    by (auto simp: backward_prefix_def split: sum.splits)
  have "t_flip_idx st0 = - 1" using a by (auto simp: backward_init_def split: sum.splits)
  then show ?thesis using run_steps_idx [OF b] by simp
qed

lemma py_index_from_end:
  assumes "py_index xs (- 2 - int k) = Inr x"
  shows "k + 2 \<le> length xs \<and> x = xs ! (length xs - 2 - k)"
proof -
  have neg: "\<not> 0 \<le> - 2 - int k" by simp
  from assms obtain p where p: "py_pos (length xs) (- 2 - int k) = Some p" and x: "x = xs ! p"
    by (auto simp: py_index_def split: option.splits)
  from p neg have r: "- (- 2 - int k) \<le> int (length xs)"
      and pv: "p = nat (int (length xs) + (- 2 - int k))"
    by (auto simp: py_pos_def split: if_splits)
  from r have le: "k + 2 \<le> length xs" by linarith
  then have "nat (int (length xs) + (- 2 - int k)) = length xs - 2 - k" by linarith
  then show ?thesis using le x pv by simp
qed

text \<open>
  Claim C8. Let the time grid, the trajectory \<^verbatim>\<open>yt\<close> and the upstream gradient
  \<^verbatim>\<open>grad_yt\<close> have \<open>n\<close> samples. Whenever pass \<open>k\<close> of the loop of \<^verbatim>\<open>backward\<close> completes,
  that is the sub-step over \<^verbatim>\<open>ts_flip[k:k+2]\<close>, whose earlier time is the grid entry
  \<open>n - 2 - k\<close>: slot 0 of the augmented state is the stored \<^verbatim>\<open>yt[n - 2 - k]\<close> and not the
  value \<open>r ! 0\<close> that the sub-step integrated, slot 1 is \<^verbatim>\<open>grad_yt[n - 2 - k]\<close> added to
  the adjoint \<open>r ! 1\<close> that the sub-step returned, and the other slots are as returned.
\<close>

theorem backward_step_resets_y:
  assumes run: "backward_prefix env cl c grad_yt (Suc k) = Inr st'"
    and lt: "length (rows (ctx_ts c)) = n"
    and ly: "length (ctx_yt c) = n" and lg: "length grad_yt = n"
  shows "k + 2 \<le> n \<and>
         rev (rows (ctx_ts c)) ! Suc k = rows (ctx_ts c) ! (n - 2 - k) \<and>
         (\<exists>st st1 r. backward_prefix env cl c grad_yt k = Inr st \<and>
            (if ctx_ts_requires_grad c then time_grad_step env cl c grad_yt k st else Inr st) =
              Inr st1 \<and>
            substep env cl c k (states st1) = Inr r \<and>
            states st' ! 0 = ctx_yt c ! (n - 2 - k) \<and>
            states st' ! 1 = add env (grad_yt ! (n - 2 - k)) (r ! 1) \<and>
            (\<forall>j. 2 \<le> j \<longrightarrow> j < length r \<longrightarrow> states st' ! j = r ! j))"
proof -
  from run obtain st0 where i0: "backward_init env c grad_yt = Inr st0"
      and r0: "run_steps env cl c grad_yt [0..<Suc k] st0 = Inr st'"
    by (auto simp: backward_prefix_def split: sum.splits)
  from r0 obtain st where a: "run_steps env cl c grad_yt [0..<k] st0 = Inr st"
      and b: "backward_step env cl c grad_yt st k = Inr st'"
    by (auto simp: run_steps_snoc split: sum.splits)
  have pk: "backward_prefix env cl c grad_yt k = Inr st"
    using i0 a by (simp add: backward_prefix_def)
  have idx: "t_flip_idx st = - 1 - int k" using pk by (rule backward_prefix_idx)
  obtain st1 where s1: "(if ctx_ts_requires_grad c then time_grad_step env cl c grad_yt k st
      else Inr st) = Inr st1"
    using b by (auto simp: backward_step_def split: sum.splits)
  have idx1: "t_flip_idx st1 - 1 = - 2 - int k"
    using s1 idx time_grad_step_idx [of env cl c grad_yt k st st1] by (auto split: if_splits)
  from b s1 idx1 obtain r y sts1 g dLdy where
    sub: "substep env cl c k (states st1) = Inr r"
    and y: "py_index (ctx_yt c) (- 2 - int k) = Inr y"
    and set0: "py_set r 0 y = Inr sts1"
    and g: "py_index grad_yt (- 2 - int k) = Inr g"
    and d: "py_get sts1 1 = Inr dLdy"
    and fin: "states st' = sts1[1 := add env g dLdy]"
    by (auto simp: backward_step_def Let_def split: sum.splits)
  from py_index_from_end [OF y] ly have kn: "k + 2 \<le> n" and yv: "y = ctx_yt c ! (n - 2 - k)"
    by simp_all
  from py_index_from_end [OF g] lg have gv: "g = grad_yt ! (n - 2 - k)" by simp
  from set0 have r1: "sts1 = r[0 := y]" and rl: "0 < length r"
    by (auto simp: py_set_def split: if_splits)
  from d have l1: "1 < length sts1" and dv: "dLdy = sts1 ! 1"
    by (auto simp: py_get_def split: if_splits)
  have "Suc k < length (rows (ctx_ts c))" using kn lt by simp
  then have "rev (rows (ctx_ts c)) ! Suc k = rows (ctx_ts c) ! (length (rows (ctx_ts c)) - Suc (Suc k))"
    by (rule rev_nth)
  moreover have "length (rows (ctx_ts c)) - Suc (Suc k) = n - 2 - k" using lt by simp
  ultimately have tv: "rev (rows (ctx_ts c)) ! Suc k = rows (ctx_ts c) ! (n - 2 - k)" by simp
  have e0: "states st' ! 0 = ctx_yt c ! (n - 2 - k)"
    using fin r1 rl yv by simp
  have e1: "states st' ! 1 = add env (grad_yt ! (n - 2 - k)) (r ! 1)"
    using fin r1 l1 dv gv by simp
  have e2: "\<forall>j. 2 \<le> j \<longrightarrow> j < length r \<longrightarrow> states st' ! j = r ! j"
    using fin r1 by simp
  show ?thesis using kn tv pk s1 sub e0 e1 e2 by blast
qed

text \<open>
  The theorem of C8 at the first pass of the backward pass over the grid \<open>[0, 1, 2]\<close>.
\<close>

theorem backward_step_resets_y_witness:
  "backward_prefix demo_env demo_closures demo_ctx [[4], [5], [6]] (Suc 0) =
     Inr \<lparr>states = [[3], [11], [0], [0]], grad_ts = [None, None, None], t_flip_idx = - 2\<rparr> \<and>
   length (rows (ctx_ts demo_ctx)) = 3 \<and>
   length (ctx_yt demo_ctx) = 3 \<and> length [[4], [5], [6 :: int]] = 3 \<and>
   (\<exists>r. [[3], [11], [0], [0]] ! 0 = ctx_yt demo_ctx ! (3 - 2 - 0) \<and>
      [[3], [11], [0], [0]] ! 1 = add demo_env ([[4], [5], [6]] ! (3 - 2 - 0)) (r ! 1))"
proof -
  have e: "backward_prefix demo_env demo_closures demo_ctx [[4], [5], [6]] (Suc 0) =
     Inr \<lparr>states = [[3], [11], [0], [0]], grad_ts = [None, None, None], t_flip_idx = - 2\<rparr>"
    by code_simp
  have lt: "length (rows (ctx_ts demo_ctx)) = 3" by code_simp
  have ly: "length (ctx_yt demo_ctx) = 3" by code_simp
  have lg: "length [[4], [5], [6 :: int]] = 3" by simp
  from backward_step_resets_y [OF e lt ly lg] have
    "\<exists>r. [[3], [11], [0], [0]] ! 0 = ctx_yt demo_ctx ! (3 - 2 - 0) \<and>
      [[3], [11], [0], [0]] ! 1 = add demo_env ([[4], [5], [6]] ! (3 - 2 - 0)) (r ! 1)"
    by (simp only: bstate.simps) blast
  then show ?thesis using e lt ly lg by blast
qed

lemma interleave_props:
  assumes "length xs = length (filter is_var sep)"
    and "length ys = length (filter (\<lambda>p. \<not> is_var p) sep)"
  shows "length (interleave sep xs ys) = length sep \<and>
         (\<forall>i<length sep. (is_var (sep ! i) \<longrightarrow> interleave sep xs ys ! i \<in> set xs) \<and>
                         (\<not> is_var (sep ! i) \<longrightarrow> interleave sep xs ys ! i \<in> set ys))"
  using assms
proof (induction sep arbitrary: xs ys)
  case Nil
  then show ?case by simp
next
  case (Cons p ps)
  show ?case
  proof (cases "is_var p")
    case True
    then obtain x xs' where xs: "xs = x # xs'" and lx: "length xs' = length (filter is_var ps)"
      using Cons.prems(1) by (cases xs) auto
    have ly: "length ys = length (filter (\<lambda>p. \<not> is_var p) ps)"
      using Cons.prems(2) True by simp
    note ih = Cons.IH [OF lx ly]
    have eq: "interleave (p # ps) xs ys = x # interleave ps xs' ys" using True xs by simp
    show ?thesis
    proof (intro conjI allI impI)
      show "length (interleave (p # ps) xs ys) = length (p # ps)" using eq ih by simp
    next
      fix i assume "i < length (p # ps)" and "is_var ((p # ps) ! i)"
      then show "interleave (p # ps) xs ys ! i \<in> set xs"
        using eq ih xs by (cases i) auto
    next
      fix i assume "i < length (p # ps)" and "\<not> is_var ((p # ps) ! i)"
      then show "interleave (p # ps) xs ys ! i \<in> set ys"
        using eq ih True by (cases i) auto
    qed
  next
    case False
    then obtain y ys' where ys: "ys = y # ys'"
        and ly: "length ys' = length (filter (\<lambda>p. \<not> is_var p) ps)"
      using Cons.prems(2) by (cases ys) auto
    have lx: "length xs = length (filter is_var ps)"
      using Cons.prems(1) False by simp
    note ih = Cons.IH [OF lx ly]
    have eq: "interleave (p # ps) xs ys = y # interleave ps xs ys'" using False ys by simp
    show ?thesis
    proof (intro conjI allI impI)
      show "length (interleave (p # ps) xs ys) = length (p # ps)" using eq ih by simp
    next
      fix i assume "i < length (p # ps)" and "is_var ((p # ps) ! i)"
      then show "interleave (p # ps) xs ys ! i \<in> set xs"
        using eq ih False by (cases i) auto
    next
      fix i assume "i < length (p # ps)" and "\<not> is_var ((p # ps) ! i)"
      then show "interleave (p # ps) xs ys ! i \<in> set ys"
        using eq ih ys by (cases i) auto
    qed
  qed
qed

lemma is_var_is_tensor: "is_var p \<Longrightarrow> is_tensor p"
  by (cases p) auto

text \<open>
  Every position that the separator does not keep as a tensor parameter, be it a tensor
  that requires no gradient or another object, has the slot \<^verbatim>\<open>None\<close>.
\<close>

lemma backward_slots_by_separator:
  fixes c :: "('a, 'o) ctx"
  assumes "backward env cl c grad_yt = Inr grads"
  shows "length grads = 6 + length (ctx_param_sep c) \<and>
         (\<forall>i<length (ctx_param_sep c).
            \<not> is_var (ctx_param_sep c ! i) \<longrightarrow> grads ! (6 + i) = Absent)"
proof -
  let ?sep = "ctx_param_sep c"
  from assms obtain allparams where
    ap: "reconstruct_params ?sep (map (\<lambda>a. TensorP a True) (ctx_tensor_params c))
           (filter (\<lambda>p. \<not> is_var p) ?sep) = Inr allparams"
    by (auto simp: backward_def Let_def split: sum.splits)
  from assms ap obtain st where
    pf: "backward_prefix env cl c grad_yt (length (rows (ctx_ts c)) - 1) = Inr st"
    by (auto simp: backward_def Let_def split: sum.splits)
  from assms ap pf obtain gts grad_y0 gp where
    rc: "reconstruct_params ?sep
           (map Grad (dLdp_slice (length (ctx_tensor_params c)) (states st)))
           (replicate (length allparams - length (ctx_tensor_params c)) Absent) = Inr gp"
    and gr: "grads = [Absent, gts, Absent, Absent, Absent, Grad grad_y0] @ gp"
    by (auto simp: backward_def Let_def split: sum.splits)
  let ?xs = "map Grad (dLdp_slice (length (ctx_tensor_params c)) (states st))"
  let ?ys = "replicate (length allparams - length (ctx_tensor_params c)) (Absent :: 'a slot)"
  from rc have lx: "length ?xs = length (filter is_var ?sep)"
    and ly: "length ?ys = length (filter (\<lambda>p. \<not> is_var p) ?sep)"
    and gp: "gp = interleave ?sep ?xs ?ys"
    by (auto simp: reconstruct_params_def split: if_splits)
  from interleave_props [OF lx ly] gp have
    len: "length gp = length ?sep"
    and el: "\<forall>i<length ?sep. (is_var (?sep ! i) \<longrightarrow> gp ! i \<in> set ?xs) \<and>
                          (\<not> is_var (?sep ! i) \<longrightarrow> gp ! i \<in> set ?ys)"
    by simp_all
  have idx: "grads ! (6 + i) = gp ! i" for i
    using gr by (simp add: nth_append)
  have "\<forall>i<length ?sep. \<not> is_var (?sep ! i) \<longrightarrow> grads ! (6 + i) = Absent"
  proof (intro allI impI)
    fix i assume i: "i < length ?sep" and "\<not> is_var (?sep ! i)"
    then have "gp ! i \<in> set ?ys" using el by blast
    then show "grads ! (6 + i) = Absent" using idx by auto
  qed
  moreover have "length grads = 6 + length ?sep" using gr len by simp
  ultimately show ?thesis by blast
qed

text \<open>
  Claim C2, as amended. The tuple that \<^verbatim>\<open>backward\<close> returns has its six leading slots
  and then one slot for every position of the parameter list, and the slot of every
  position that holds no tensor is \<^verbatim>\<open>None\<close>, an absent entry and not a zero gradient.
\<close>

theorem backward_gradient_slots:
  fixes c :: "('a, 'o) ctx"
  assumes "backward env cl c grad_yt = Inr grads"
  shows "length grads = 6 + length (ctx_param_sep c) \<and>
         (\<forall>i<length (ctx_param_sep c).
            \<not> is_tensor (ctx_param_sep c ! i) \<longrightarrow> grads ! (6 + i) = Absent)"
proof -
  from backward_slots_by_separator [OF assms] have
    len: "length grads = 6 + length (ctx_param_sep c)"
    and el: "\<forall>i<length (ctx_param_sep c).
            \<not> is_var (ctx_param_sep c ! i) \<longrightarrow> grads ! (6 + i) = Absent"
    by blast+
  have "\<forall>i<length (ctx_param_sep c).
            \<not> is_tensor (ctx_param_sep c ! i) \<longrightarrow> grads ! (6 + i) = Absent"
  proof (intro allI impI)
    fix i assume i: "i < length (ctx_param_sep c)" and nt: "\<not> is_tensor (ctx_param_sep c ! i)"
    have "\<not> is_var (ctx_param_sep c ! i)" using nt is_var_is_tensor by blast
    then show "grads ! (6 + i) = Absent" using el i by blast
  qed
  then show ?thesis using len by blast
qed

text \<open>
  Claim C2 as stated fails for the call with \<^verbatim>\<open>params = (a, "note")\<close>: the slot of the
  string is \<^verbatim>\<open>None\<close>, not a zero gradient.
\<close>

theorem non_tensor_param_gets_none:
  "ctx_param_sep demo_ctx = [TensorP [2] True, OtherP ''note''] \<and>
   backward demo_env demo_closures demo_ctx [[1], [1], [1]] =
     Inr [Absent, Absent, Absent, Absent, Absent, Grad [3], Grad [0], Absent]"
  by code_simp

text \<open>
  The theorem of C2 for the same call and another upstream gradient.
\<close>

theorem backward_gradient_slots_witness:
  "backward demo_env demo_closures demo_ctx [[0], [0], [1]] =
     Inr [Absent, Absent, Absent, Absent, Absent, Grad [1], Grad [0], Absent] \<and>
   length [Absent, Absent, Absent, Absent, Absent, Grad [1], Grad [0], Absent :: vec slot] =
     6 + length (ctx_param_sep demo_ctx) \<and>
   (1::nat) < length (ctx_param_sep demo_ctx) \<and>
   \<not> is_tensor (ctx_param_sep demo_ctx ! 1) \<and>
   [Absent, Absent, Absent, Absent, Absent, Grad [1], Grad [0], Absent :: vec slot] ! (6 + 1) =
     Absent"
proof -
  have e: "backward demo_env demo_closures demo_ctx [[0], [0], [1]] =
     Inr [Absent, Absent, Absent, Absent, Absent, Grad [1], Grad [0], Absent]"
    by code_simp
  have l: "(1::nat) < length (ctx_param_sep demo_ctx)" by code_simp
  have n: "\<not> is_tensor (ctx_param_sep demo_ctx ! 1)" by code_simp
  from backward_gradient_slots [OF e] have
    a: "length [Absent, Absent, Absent, Absent, Absent, Grad [1], Grad [0], Absent :: vec slot] =
          6 + length (ctx_param_sep demo_ctx)"
    and b: "\<forall>i<length (ctx_param_sep demo_ctx).
      \<not> is_tensor (ctx_param_sep demo_ctx ! i) \<longrightarrow>
         [Absent, Absent, Absent, Absent, Absent, Grad [1], Grad [0], Absent :: vec slot] ! (6 + i) =
           Absent"
    by blast+
  from b l n have c1:
    "[Absent, Absent, Absent, Absent, Absent, Grad [1], Grad [0], Absent :: vec slot] ! (6 + 1) =
       Absent" by blast
  show ?thesis using e a l n c1 by blast
qed

end
